(* ===== verification/Prelude.thy ===== *)
theory Prelude
  imports Main "HOL-Library.Word" "HOL-Library.Multiset" "HOL-Library.Sublist"
begin

text \<open>
  What every component shares: the machine integers of the sources, a panic as a value, the parts of
  Rust's standard library the code calls (\<open>Option::expect\<close>, \<open>str::strip_prefix\<close>,
  \<open>u64\<close>'s \<open>Display\<close> and \<open>FromStr\<close>, \<open>Vec::remove\<close>), and generic lemmas on lists and folds.
  Integer arithmetic is that of a release build (the profile the README builds with), so \<open>+\<close>
  and \<open>-\<close> on \<open>u64\<close> wrap around, as they do on \<open>64 word\<close>.
\<close>

section \<open>Types and collections\<close>

type_synonym u64 = "64 word"

text \<open>A panicking computation is \<open>Inl\<close> of the panic message, a normal one \<open>Inr\<close> of its result.\<close>

datatype panic = Panic string

type_synonym 'a res = "panic + 'a"

text \<open>
  \<open>frame\<close> collects the equations that say which field an operation leaves alone;
  \<open>fold_laws\<close> the laws that move a fold over an append.
\<close>

named_theorems frame
named_theorems fold_laws

section \<open>Option and string helpers of the standard library\<close>

definition expect :: "string \<Rightarrow> 'a option \<Rightarrow> 'a res" where
  "expect msg x = (case x of None \<Rightarrow> Inl (Panic msg) | Some v \<Rightarrow> Inr v)"

abbreviation unwrap :: "'a option \<Rightarrow> 'a res" where
  "unwrap \<equiv> expect ''called `Option::unwrap()` on a `None` value''"

definition unwrap_or :: "'a \<Rightarrow> 'a option \<Rightarrow> 'a" where
  "unwrap_or d x = (case x of None \<Rightarrow> d | Some v \<Rightarrow> v)"

lemma expect_simps [simp]:
  "expect msg None = Inl (Panic msg)"
  "expect msg (Some v) = Inr v"
  by (simp_all add: expect_def)

lemma expect_eq_Inr [simp]: "expect msg x = Inr v \<longleftrightarrow> x = Some v"
  by (simp add: expect_def split: option.splits)

lemma unwrap_or_simps [simp]:
  "unwrap_or d None = d"
  "unwrap_or d (Some v) = v"
  by (simp_all add: unwrap_or_def)

text \<open>\<open>s.strip_prefix(c)\<close>, \<open>s.starts_with(c)\<close> and \<open>s.ends_with(t)\<close>.\<close>

fun strip_prefix_char :: "char \<Rightarrow> string \<Rightarrow> string option" where
  "strip_prefix_char c [] = None"
| "strip_prefix_char c (x # xs) = (if x = c then Some xs else None)"

definition starts_with_char :: "char \<Rightarrow> string \<Rightarrow> bool" where
  "starts_with_char c s = (case s of [] \<Rightarrow> False | x # _ \<Rightarrow> x = c)"

definition ends_with :: "string \<Rightarrow> string \<Rightarrow> bool" where
  "ends_with s t = (length t \<le> length s \<and> drop (length s - length t) s = t)"

text \<open>Mapping a panicking function over a list: \<open>iter().map(..).collect()\<close> stops at the first panic.\<close>

fun map_res :: "('a \<Rightarrow> 'b res) \<Rightarrow> 'a list \<Rightarrow> 'b list res" where
  "map_res f [] = Inr []"
| "map_res f (x # xs) =
     (case f x of
        Inl p \<Rightarrow> Inl p
      | Inr y \<Rightarrow> (case map_res f xs of Inl p \<Rightarrow> Inl p | Inr ys \<Rightarrow> Inr (y # ys)))"

lemma map_res_Inr:
  assumes "\<And>x. x \<in> set xs \<Longrightarrow> f x = Inr (g x)"
  shows "map_res f xs = Inr (map g xs)"
  using assms by (induction xs) auto

text \<open>A loop \<open>for x in xs\<close> whose body changes the state and may panic.\<close>

fun fold_res :: "('s \<Rightarrow> 'a \<Rightarrow> 's res) \<Rightarrow> 's \<Rightarrow> 'a list \<Rightarrow> 's res" where
  "fold_res f s [] = Inr s"
| "fold_res f s (x # xs) = (case f s x of Inl p \<Rightarrow> Inl p | Inr s' \<Rightarrow> fold_res f s' xs)"

lemma fold_res_append [fold_laws]:
  "fold_res f s (xs @ ys) = (case fold_res f s xs of Inl p \<Rightarrow> Inl p | Inr s' \<Rightarrow> fold_res f s' ys)"
  by (induction xs arbitrary: s) (auto split: sum.splits)

lemma fold_res_pure:
  assumes "\<And>s x. f s x = Inr (g s x)"
  shows "fold_res f s xs = Inr (foldl g s xs)"
  using assms by (induction xs arbitrary: s) auto

text \<open>An invariant of the body is an invariant of the loop.\<close>

lemma fold_res_invariant:
  assumes "fold_res f s xs = Inr s'" "P s"
    and "\<And>s x s'. x \<in> set xs \<Longrightarrow> P s \<Longrightarrow> f s x = Inr s' \<Longrightarrow> P s'"
  shows "P s'"
  using assms
proof (induction xs arbitrary: s)
  case Nil
  then show ?case by simp
next
  case (Cons x xs)
  from Cons.prems(1) obtain t where t: "f s x = Inr t" "fold_res f t xs = Inr s'"
    by (auto split: sum.splits)
  from Cons.prems(2,3) t(1) have "P t" by (meson list.set_intros(1))
  with t(2) show ?case by (rule Cons.IH) (use Cons.prems(3) in auto)
qed

text \<open>A body that keeps the invariant and never panics under it makes a loop that never panics.\<close>

lemma fold_res_total:
  assumes "P s" "\<And>s x. x \<in> set xs \<Longrightarrow> P s \<Longrightarrow> \<exists>s'. f s x = Inr s' \<and> P s'"
  shows "\<exists>s'. fold_res f s xs = Inr s' \<and> P s'"
  using assms
proof (induction xs arbitrary: s)
  case Nil
  then show ?case by simp
next
  case (Cons x xs)
  obtain t where "f s x = Inr t" "P t" using Cons.prems by (meson list.set_intros(1))
  with Cons.IH [of t] Cons.prems(2) show ?case by simp
qed

text \<open>One statement after another: a panic skips the rest.\<close>

definition bind_res :: "'a res \<Rightarrow> ('a \<Rightarrow> 'b res) \<Rightarrow> 'b res" where
  "bind_res x f = (case x of Inl p \<Rightarrow> Inl p | Inr v \<Rightarrow> f v)"

lemma bind_res_simps [simp]:
  "bind_res (Inl p) f = Inl p"
  "bind_res (Inr v) f = f v"
  by (simp_all add: bind_res_def)

lemma bind_res_eq_Inr: "bind_res x f = Inr y \<longleftrightarrow> (\<exists>v. x = Inr v \<and> f v = Inr y)"
  by (cases x) simp_all

section \<open>Decimal numbers: Display and FromStr of u64\<close>

definition digit_char :: "nat \<Rightarrow> char" where
  "digit_char d = char_of (48 + d)"

definition char_digit :: "char \<Rightarrow> nat option" where
  "char_digit c = (let n = of_char c in if 48 \<le> n \<and> n \<le> 57 then Some (n - 48) else None)"

fun show_nat :: "nat \<Rightarrow> string" where
  "show_nat n = (if n < 10 then [digit_char n] else show_nat (n div 10) @ [digit_char (n mod 10)])"

declare show_nat.simps [simp del]

definition show_u64 :: "u64 \<Rightarrow> string" where
  "show_u64 w = show_nat (unat w)"

fun digits_value :: "nat \<Rightarrow> string \<Rightarrow> nat option" where
  "digits_value acc [] = Some acc"
| "digits_value acc (c # cs) =
     (case char_digit c of None \<Rightarrow> None | Some d \<Rightarrow> digits_value (10 * acc + d) cs)"

text \<open>
  \<open>u64::from_str\<close>: an optional plus sign, then one or more decimal digits, the value below
  \<open>2 ^ 64\<close>; anything else is an error.
\<close>

definition parse_u64 :: "string \<Rightarrow> u64 option" where
  "parse_u64 s =
     (let ds = (case s of [] \<Rightarrow> [] | c # cs \<Rightarrow> if c = CHR ''+'' then cs else s)
      in if ds = [] then None
         else (case digits_value 0 ds of
                 None \<Rightarrow> None
               | Some n \<Rightarrow> if n < 2 ^ 64 then Some (of_nat n) else None))"

lemma char_digit_digit_char [simp]: "d < 10 \<Longrightarrow> char_digit (digit_char d) = Some d"
  by (simp add: char_digit_def digit_char_def)

lemma digits_value_append:
  "digits_value acc (xs @ ys) =
     (case digits_value acc xs of None \<Rightarrow> None | Some a \<Rightarrow> digits_value a ys)"
  by (induction xs arbitrary: acc) (auto split: option.splits)

lemma show_nat_nonempty [simp]: "show_nat n \<noteq> []"
  by (subst show_nat.simps) simp

lemma digits_value_show_nat: "digits_value 0 (show_nat n) = Some n"
proof (induction n rule: show_nat.induct)
  case (1 n)
  show ?case
  proof (cases "n < 10")
    case True
    then show ?thesis by (subst show_nat.simps) simp
  next
    case False
    with "1.IH" have "digits_value 0 (show_nat (n div 10)) = Some (n div 10)" by simp
    with False show ?thesis
      by (subst show_nat.simps) (simp add: digits_value_append)
  qed
qed

lemma hd_show_nat_digit: "\<exists>d < 10. hd (show_nat n) = digit_char d"
proof (induction n rule: show_nat.induct)
  case (1 n)
  then show ?case
    by (cases "n < 10") (auto simp: show_nat.simps [of n])
qed

lemma digit_char_not_plus: "d < 10 \<Longrightarrow> digit_char d \<noteq> CHR ''+''"
proof -
  assume "d < 10"
  then have "char_digit (digit_char d) = Some d" by simp
  moreover have "char_digit (CHR ''+'') = None" by (simp add: char_digit_def)
  ultimately show ?thesis by auto
qed

text \<open>Printing a \<open>u64\<close> and parsing it back gives the same number.\<close>

lemma parse_show_u64 [simp]: "parse_u64 (show_u64 w) = Some w"
proof -
  have "unat w < 2 ^ 64" using unsigned_less [of w] by simp
  moreover have "hd (show_nat (unat w)) \<noteq> CHR ''+''"
    using hd_show_nat_digit digit_char_not_plus by metis
  then have "(case show_nat (unat w) of [] \<Rightarrow> []
      | c # cs \<Rightarrow> if c = CHR ''+'' then cs else show_nat (unat w)) = show_nat (unat w)"
    by (cases "show_nat (unat w)") auto
  ultimately show ?thesis
    by (simp add: parse_u64_def show_u64_def digits_value_show_nat)
qed

lemma show_u64_inject [simp]: "show_u64 a = show_u64 b \<longleftrightarrow> a = b"
proof
  assume "show_u64 a = show_u64 b"
  then have "parse_u64 (show_u64 a) = parse_u64 (show_u64 b)" by simp
  then show "a = b" by simp
qed simp

section \<open>Lists\<close>

text \<open>\<open>Vec::remove\<close> at an index that is in range.\<close>

definition remove_at :: "nat \<Rightarrow> 'a list \<Rightarrow> 'a list" where
  "remove_at i xs = take i xs @ drop (Suc i) xs"

lemma length_remove_at [simp]: "i < length xs \<Longrightarrow> length (remove_at i xs) = length xs - 1"
  by (simp add: remove_at_def)

lemma mset_remove_at: "i < length xs \<Longrightarrow> add_mset (xs ! i) (mset (remove_at i xs)) = mset xs"
proof -
  assume "i < length xs"
  then have "xs = take i xs @ xs ! i # drop (Suc i) xs" by (simp add: id_take_nth_drop)
  then have "mset xs = mset (take i xs @ xs ! i # drop (Suc i) xs)" by simp
  then show ?thesis by (simp add: remove_at_def)
qed

lemma set_remove_at_subset: "set (remove_at i xs) \<subseteq> set xs"
  by (auto simp: remove_at_def dest: in_set_takeD in_set_dropD)

lemma ex_ge_Suc: "(\<exists>j\<ge>i. Q j) \<longleftrightarrow> Q i \<or> (\<exists>j\<ge>Suc i. Q j)" for Q :: "nat \<Rightarrow> bool"
  by (metis Suc_le_eq le_eq_less_or_eq order_refl)

text \<open>Two prefixes of the same list are comparable; what a shorter one holds the longer one holds at
  the same place.\<close>

lemma prefix_nth: "prefix xs ys \<Longrightarrow> i < length xs \<Longrightarrow> xs ! i = ys ! i"
  by (auto simp: prefix_def nth_append)

lemma prefix_take_eq: "prefix xs ys \<Longrightarrow> n \<le> length xs \<Longrightarrow> take n xs = take n ys"
  by (auto simp: prefix_def)

text \<open>A \<open>match\<close> that panics on an error, and one that passes an absent value on.\<close>

lemma case_sum_eq_Inr:
  "(case x of Inl e \<Rightarrow> Inl (f e) | Inr v \<Rightarrow> g v) = Inr y \<longleftrightarrow> (\<exists>v. x = Inr v \<and> g v = Inr y)"
  by (cases x) simp_all

lemma case_option_eq_Some:
  "(case x of None \<Rightarrow> Inr None | Some v \<Rightarrow> g v) = Inr (Some y) \<longleftrightarrow> (\<exists>v. x = Some v \<and> g v = Inr (Some y))"
  by (cases x) simp_all

section \<open>Searching a list\<close>

text \<open>\<open>iter().position(..)\<close>.\<close>

fun position :: "('a \<Rightarrow> bool) \<Rightarrow> 'a list \<Rightarrow> nat option" where
  "position P [] = None"
| "position P (x # xs) = (if P x then Some 0 else map_option Suc (position P xs))"

lemma position_None_iff: "position P xs = None \<longleftrightarrow> (\<forall>x\<in>set xs. \<not> P x)"
  by (induction xs) auto

lemma position_Some: "position P xs = Some i \<Longrightarrow> i < length xs \<and> P (xs ! i)"
  by (induction xs arbitrary: i) (auto split: if_splits)

lemma position_eq_inject:
  assumes "position ((=) a) xs = Some i" "position ((=) b) xs = Some i"
  shows "a = b"
  using position_Some [OF assms(1)] position_Some [OF assms(2)] by simp

lemma position_nth_distinct:
  assumes "distinct xs" "i < length xs"
  shows "position ((=) (xs ! i)) xs = Some i"
proof (cases "position ((=) (xs ! i)) xs")
  case None
  with assms(2) show ?thesis by (auto simp: position_None_iff)
next
  case (Some j)
  from position_Some [OF this] have "j < length xs" "xs ! i = xs ! j" by simp_all
  with assms have "j = i" by (simp add: nth_eq_iff_index_eq)
  with Some show ?thesis by simp
qed

text \<open>What a search finds.\<close>

lemma find_SomeD: "find P xs = Some x \<Longrightarrow> x \<in> set xs \<and> P x"
  by (induction xs) (auto split: if_splits)

end
