(* ===== verification/Json_Interface.thy ===== *)
theory Json_Interface
  imports Prelude "HOL-Library.Countable"
begin

text \<open>
  The serialisation libraries the sources call. \<open>serde_json\<close> and the code \<open>serde\<close> derives are
  not part of the repository, so they are parameters: \<open>json_ops\<close> holds the operations on
  \<open>serde_json::Value\<close> the sources use, \<open>codec\<close> a derived \<open>Serialize\<close>/\<open>Deserialize\<close> pair.
  The locale \<open>json_lib\<close> states the documented behaviour the code relies on. The theory ends with
  a concrete value type and a concrete codec that satisfy those laws.
\<close>

section \<open>Operations\<close>

record 'j json_ops =
  j_null :: 'j
  j_str :: "string \<Rightarrow> 'j"
  j_u64 :: "u64 \<Rightarrow> 'j"
  j_array :: "'j list \<Rightarrow> 'j"
  j_object :: "(string \<times> 'j) list \<Rightarrow> 'j"
  j_index :: "'j \<Rightarrow> string \<Rightarrow> 'j"
  j_as_str :: "'j \<Rightarrow> string option"
  j_as_u64 :: "'j \<Rightarrow> u64 option"
  j_as_array :: "'j \<Rightarrow> 'j list option"
  j_from_str :: "string \<Rightarrow> 'j option"

record 'a codec =
  enc :: "'a \<Rightarrow> string"
  dec :: "string \<Rightarrow> 'a option"

section \<open>Documented behaviour\<close>

text \<open>
  \<open>json!\<close> builds an object with the given members; indexing with a string gives the member, or
  \<open>Null\<close> when there is none; \<open>as_str\<close>, \<open>as_u64\<close> and \<open>as_array\<close> recognise their variant.
\<close>

locale json_lib =
  fixes J :: "'j json_ops"
  assumes index_object:
      "distinct (map fst kvs) \<Longrightarrow>
         j_index J (j_object J kvs) k = (case map_of kvs k of None \<Rightarrow> j_null J | Some v \<Rightarrow> v)"
    and as_str_str: "j_as_str J (j_str J s) = Some s"
    and as_str_null: "j_as_str J (j_null J) = None"
    and as_u64_u64: "j_as_u64 J (j_u64 J n) = Some n"
    and as_u64_null: "j_as_u64 J (j_null J) = None"
    and as_array_array: "j_as_array J (j_array J xs) = Some xs"
begin

text \<open>The three members of a Maelstrom message.\<close>

lemma index_message [simp]:
  "j_index J (j_object J [(''src'', a), (''dest'', b), (''body'', c)]) ''src'' = a"
  "j_index J (j_object J [(''src'', a), (''dest'', b), (''body'', c)]) ''dest'' = b"
  "j_index J (j_object J [(''src'', a), (''dest'', b), (''body'', c)]) ''body'' = c"
  by (simp_all add: index_object)

lemmas access [simp] = index_object as_str_str as_str_null as_u64_u64 as_u64_null as_array_array

lemma str_inject [simp]: "j_str J s = j_str J t \<longleftrightarrow> s = t"
  by (metis as_str_str option.inject)

end

text \<open>Deserialising what was serialised gives the value back.\<close>

locale codec_lib =
  fixes C :: "'a codec"
  assumes dec_enc [simp]: "dec C (enc C x) = Some x"
begin

lemma enc_inject [simp]: "enc C x = enc C y \<longleftrightarrow> x = y"
  by (metis dec_enc option.inject)

end

section \<open>A concrete value type\<close>

text \<open>
  An instance of the interface: values as a datatype, objects as association lists. It carries no
  text format, so its \<open>from_str\<close> rejects every line; an instance that reads given lines is
  obtained by updating that one field, which no law mentions.
\<close>

datatype json_value =
    JNull
  | JStr string
  | JNum u64
  | JArr "json_value list"
  | JObj "(string \<times> json_value) list"

fun jv_index :: "json_value \<Rightarrow> string \<Rightarrow> json_value" where
  "jv_index (JObj kvs) k = (case map_of kvs k of None \<Rightarrow> JNull | Some v \<Rightarrow> v)"
| "jv_index _ k = JNull"

fun jv_as_str :: "json_value \<Rightarrow> string option" where
  "jv_as_str (JStr s) = Some s"
| "jv_as_str _ = None"

fun jv_as_u64 :: "json_value \<Rightarrow> u64 option" where
  "jv_as_u64 (JNum n) = Some n"
| "jv_as_u64 _ = None"

fun jv_as_array :: "json_value \<Rightarrow> json_value list option" where
  "jv_as_array (JArr xs) = Some xs"
| "jv_as_array _ = None"

definition value_json :: "json_value json_ops" where
  "value_json =
     \<lparr>j_null = JNull, j_str = JStr, j_u64 = JNum, j_array = JArr, j_object = JObj,
      j_index = jv_index, j_as_str = jv_as_str, j_as_u64 = jv_as_u64, j_as_array = jv_as_array,
      j_from_str = (\<lambda>_. None)\<rparr>"

interpretation vj: json_lib value_json
  by unfold_locales (simp_all add: value_json_def split: option.splits)

lemma value_json_lines: "json_lib (value_json\<lparr>j_from_str := f\<rparr>)"
  by unfold_locales (simp_all add: value_json_def split: option.splits)

text \<open>A codec for any countable type: the decimal digits of the value's number.\<close>

definition count_codec :: "('a::countable) codec" where
  "count_codec =
     \<lparr>enc = (\<lambda>x. show_nat (to_nat x)), dec = (\<lambda>s. map_option from_nat (digits_value 0 s))\<rparr>"

interpretation cc: codec_lib "count_codec :: ('a::countable) codec"
  by unfold_locales (simp add: count_codec_def digits_value_show_nat)

instance json_value :: countable
  by countable_datatype

end
