(* ===== verification/Omnipaxos_Interface.thy ===== *)
theory Omnipaxos_Interface
  imports Prelude
begin

text \<open>
  The consensus library. \<open>omnipaxos\<close> is not part of the repository, so an instance of it is an
  opaque state \<open>'o\<close> and its methods are the parameter \<open>omnipaxos_ops\<close>. The locale
  \<open>omnipaxos_lib\<close> states what its documentation promises of one instance: a decided log that only
  grows, read back by index, and a set of the entries proposed through it. What it promises of a
  whole cluster (agreement and validity) is stated over runs in theory \<open>Cluster\<close>.
  The theory ends with a leader-based replicated log that satisfies the laws.
\<close>

section \<open>Operations\<close>

type_synonym op_node_id = u64

text \<open>The entries \<open>read_decided_suffix\<close> returns: the two variants the sources match on, and the rest.\<close>

datatype ('c, 's) log_entry = LDecided 'c | LSnapshotted 's | LOther

text \<open>The fields of \<open>OmniPaxosConfig\<close> the sources set; all others keep their defaults.\<close>

record 'q op_config =
  cfg_pid :: op_node_id
  cfg_configuration_id :: nat
  cfg_nodes :: "op_node_id list"
  cfg_flexible_quorum :: "'q option"

record ('o, 'c, 's, 'm, 'q) omnipaxos_ops =
  op_build :: "'q op_config \<Rightarrow> 'o option"
  op_append :: "'c \<Rightarrow> 'o \<Rightarrow> bool \<times> 'o"
  op_get_current_leader :: "'o \<Rightarrow> (op_node_id \<times> bool) option"
  op_handle_incoming :: "'m \<Rightarrow> 'o \<Rightarrow> 'o"
  op_take_outgoing_messages :: "'o \<Rightarrow> 'm list \<times> 'o"
  op_get_decided_idx :: "'o \<Rightarrow> nat"
  op_read_decided_suffix :: "nat \<Rightarrow> 'o \<Rightarrow> ('c, 's) log_entry list option"
  op_tick :: "'o \<Rightarrow> 'o"
  op_try_become_leader :: "'o \<Rightarrow> 'o"
  op_get_receiver :: "'m \<Rightarrow> op_node_id"

section \<open>Documented behaviour of one instance\<close>

locale omnipaxos_lib =
  fixes P :: "('o, 'c, 's, 'm, 'q) omnipaxos_ops"
    and decided :: "'o \<Rightarrow> 'c list"
    and proposed :: "'o \<Rightarrow> 'c set"
  assumes build_decided: "op_build P cfg = Some s \<Longrightarrow> decided s = []"
    and build_proposed: "op_build P cfg = Some s \<Longrightarrow> proposed s = {}"
    and decided_idx: "op_get_decided_idx P s = length (decided s)"
    and read_suffix: "i \<le> length (decided s) \<Longrightarrow>
          op_read_decided_suffix P i s = Some (map LDecided (drop i (decided s)))"
    and append_decided: "prefix (decided s) (decided (snd (op_append P c s)))"
    and incoming_decided: "prefix (decided s) (decided (op_handle_incoming P m s))"
    and tick_decided: "prefix (decided s) (decided (op_tick P s))"
    and lead_decided: "prefix (decided s) (decided (op_try_become_leader P s))"
    and take_decided: "decided (snd (op_take_outgoing_messages P s)) = decided s"
    and append_proposed: "proposed (snd (op_append P c s)) \<subseteq> insert c (proposed s)"
    and incoming_proposed: "proposed (op_handle_incoming P m s) = proposed s"
    and tick_proposed: "proposed (op_tick P s) = proposed s"
    and lead_proposed: "proposed (op_try_become_leader P s) = proposed s"
    and take_proposed: "proposed (snd (op_take_outgoing_messages P s)) = proposed s"
begin

lemmas grows = append_decided incoming_decided tick_decided lead_decided

text \<open>What an instance has decided at one index it never decides differently later.\<close>

lemma decided_at_stable:
  assumes "prefix (decided s) (decided s')" "i < op_get_decided_idx P s"
  shows "i < op_get_decided_idx P s' \<and> decided s' ! i = decided s ! i"
  using assms prefix_length_le [OF assms(1)] by (auto simp: decided_idx prefix_nth)

text \<open>Reading from the decided index gives nothing, so a second read sees no entry twice.\<close>

lemma read_suffix_at_end: "op_read_decided_suffix P (op_get_decided_idx P s) s = Some []"
  by (simp add: decided_idx read_suffix)

end

section \<open>A leader-based replicated log\<close>

text \<open>
  An instance of the interface: the node with id 1 is the leader and decides what is appended at it;
  its messages carry its log to the other nodes; an append at another node is refused.
\<close>

record 'c leader_log =
  ll_pid :: op_node_id
  ll_nodes :: "op_node_id list"
  ll_log :: "'c list"
  ll_proposed :: "'c list"
  ll_out :: "(op_node_id \<times> 'c list) list"

definition ll_append :: "'c \<Rightarrow> 'c leader_log \<Rightarrow> bool \<times> 'c leader_log" where
  "ll_append c s =
     (if ll_pid s = 1
      then (True, s\<lparr>ll_log := ll_log s @ [c], ll_proposed := ll_proposed s @ [c],
             ll_out := ll_out s @ map (\<lambda>p. (p, ll_log s @ [c])) (removeAll 1 (ll_nodes s))\<rparr>)
      else (False, s))"

definition ll_handle_incoming :: "op_node_id \<times> 'c list \<Rightarrow> 'c leader_log \<Rightarrow> 'c leader_log" where
  "ll_handle_incoming m s = (if prefix (ll_log s) (snd m) then s\<lparr>ll_log := snd m\<rparr> else s)"

definition leader_paxos ::
    "('c leader_log, 'c, 's, op_node_id \<times> 'c list, 'q) omnipaxos_ops" where
  "leader_paxos =
     \<lparr>op_build = (\<lambda>cfg. Some \<lparr>ll_pid = cfg_pid cfg, ll_nodes = cfg_nodes cfg, ll_log = [],
                           ll_proposed = [], ll_out = []\<rparr>),
      op_append = ll_append,
      op_get_current_leader = (\<lambda>s. Some (1, True)),
      op_handle_incoming = ll_handle_incoming,
      op_take_outgoing_messages = (\<lambda>s. (ll_out s, s\<lparr>ll_out := []\<rparr>)),
      op_get_decided_idx = (\<lambda>s. length (ll_log s)),
      op_read_decided_suffix =
        (\<lambda>i s. if i \<le> length (ll_log s) then Some (map LDecided (drop i (ll_log s))) else None),
      op_tick = (\<lambda>s. s),
      op_try_become_leader = (\<lambda>s. s),
      op_get_receiver = fst\<rparr>"

interpretation lp: omnipaxos_lib leader_paxos ll_log "\<lambda>s. set (ll_proposed s)"
  by unfold_locales
    (auto simp: leader_paxos_def ll_append_def ll_handle_incoming_def split: if_splits)

end
