(* ===== verification/Replica.thy ===== *)
theory Replica
  imports Prelude
begin

text \<open>
  State machine replication, the contract both servers of the repository follow: a replica applies the
  decided log in order to its store and answers the commands it coordinates. \<open>run_log\<close> is the
  sequential specification (a store, a list of answers); the locale \<open>replica\<close> is the interface of a
  node that refines it entry by entry, and lifts the refinement to whole logs.
\<close>

section \<open>Running a log\<close>

text \<open>The store after a log, and what running the log outputs.\<close>

fun run_log :: "('s \<Rightarrow> 'c \<Rightarrow> 's \<times> 'r list) \<Rightarrow> 's \<Rightarrow> 'c list \<Rightarrow> 's \<times> 'r list" where
  "run_log f s [] = (s, [])"
| "run_log f s (c # cs) =
     (let (s', out) = f s c; (s'', out') = run_log f s' cs in (s'', out @ out'))"

lemma run_log_Cons:
  "run_log f s (c # cs) =
     (fst (run_log f (fst (f s c)) cs), snd (f s c) @ snd (run_log f (fst (f s c)) cs))"
  by (simp add: case_prod_beta Let_def)

lemma fst_run_log_append [fold_laws]:
  "fst (run_log f s (xs @ ys)) = fst (run_log f (fst (run_log f s xs)) ys)"
  by (induction xs arbitrary: s) (simp_all add: run_log_Cons del: run_log.simps(2))

lemma snd_run_log_append [fold_laws]:
  "snd (run_log f s (xs @ ys)) = snd (run_log f s xs) @ snd (run_log f (fst (run_log f s xs)) ys)"
  by (induction xs arbitrary: s) (simp_all add: run_log_Cons del: run_log.simps(2))

lemma fst_run_log_foldl: "fst (run_log f s xs) = foldl (\<lambda>s c. fst (f s c)) s xs"
  by (induction xs arbitrary: s) (simp_all add: run_log_Cons del: run_log.simps(2))

text \<open>Outputs of a longer log start with those of a shorter one.\<close>

lemma snd_run_log_prefix: "prefix xs ys \<Longrightarrow> prefix (snd (run_log f s xs)) (snd (run_log f s ys))"
  by (auto simp: prefix_def fold_laws)

section \<open>The interface of a replica\<close>

locale replica =
  fixes apply_cmd :: "'n \<Rightarrow> 'c \<Rightarrow> 'n"
    and store_of :: "'n \<Rightarrow> 's"
    and out_of :: "'n \<Rightarrow> 'r list"
    and self_of :: "'n \<Rightarrow> 'i"
    and spec :: "'i \<Rightarrow> 's \<Rightarrow> 'c \<Rightarrow> 's \<times> 'r list"
  assumes apply_store: "store_of (apply_cmd n c) = fst (spec (self_of n) (store_of n) c)"
    and apply_out: "out_of (apply_cmd n c) = out_of n @ snd (spec (self_of n) (store_of n) c)"
    and apply_self: "self_of (apply_cmd n c) = self_of n"
begin

lemma foldl_self: "self_of (foldl apply_cmd n cs) = self_of n"
  by (induction cs arbitrary: n) (simp_all add: apply_self)

lemma foldl_store:
  "store_of (foldl apply_cmd n cs) = fst (run_log (spec (self_of n)) (store_of n) cs)"
  by (induction cs arbitrary: n)
    (simp_all add: run_log_Cons apply_store apply_self del: run_log.simps(2))

lemma foldl_out:
  "out_of (foldl apply_cmd n cs) = out_of n @ snd (run_log (spec (self_of n)) (store_of n) cs)"
  by (induction cs arbitrary: n)
    (simp_all add: run_log_Cons apply_store apply_out apply_self del: run_log.simps(2))

text \<open>
  A replica that has applied a prefix of a log and then applies the rest is where it would be had it
  applied the whole log at once: nothing is applied twice and nothing is skipped.
\<close>

lemma catch_up:
  assumes "store_of n = fst (run_log (spec (self_of n)) s0 (take i log))"
    and "out_of n = snd (run_log (spec (self_of n)) s0 (take i log))"
  shows "store_of (foldl apply_cmd n (drop i log)) = fst (run_log (spec (self_of n)) s0 log)"
    and "out_of (foldl apply_cmd n (drop i log)) = snd (run_log (spec (self_of n)) s0 log)"
proof -
  have log: "take i log @ drop i log = log" by simp
  show "store_of (foldl apply_cmd n (drop i log)) = fst (run_log (spec (self_of n)) s0 log)"
    by (subst (2) log [symmetric]) (simp add: fold_laws foldl_store assms del: append_take_drop_id)
  show "out_of (foldl apply_cmd n (drop i log)) = snd (run_log (spec (self_of n)) s0 log)"
    by (subst (2) log [symmetric]) (simp add: fold_laws foldl_out assms del: append_take_drop_id)
qed

end

end
