(* ===== verification/Maelstrom_Types.thy ===== *)
theory Maelstrom_Types
  imports Json_Interface Omnipaxos_Interface Replica
begin

text \<open>
  The data of \<open>src/bin/maelstrom_node.rs\<close>: log entries, the snapshot type, node identifiers and the
  JSON messages a node writes; and the sequential key-value store that is the specification of a
  node. The snapshot is related to the store: creating one replays the log, and merging is only
  right for deltas without a compare-and-swap.
\<close>

section \<open>Log entries\<close>

datatype 'j kv_op = Read string | Write string 'j | Cas string 'j 'j

record 'j maelstrom_command =
  coordinator :: string
  client_src :: string
  msg_id :: u64
  op :: "'j kv_op"

type_synonym 'j kv_data = "string \<rightharpoonup> 'j"

record 'j maelstrom_snapshot =
  snap_data :: "'j kv_data"

section \<open>Snapshots\<close>

text \<open>The loop body of \<open>MaelstromKVSnapshot::create\<close>.\<close>

fun snapshot_entry :: "'j kv_data \<Rightarrow> 'j maelstrom_command \<Rightarrow> 'j kv_data" where
  "snapshot_entry d cmd =
     (case op cmd of
        Write key v \<Rightarrow> d(key \<mapsto> v)
      | Cas key from to \<Rightarrow> if d key = Some from then d(key \<mapsto> to) else d
      | Read _ \<Rightarrow> d)"

definition snapshot_create :: "'j maelstrom_command list \<Rightarrow> 'j maelstrom_snapshot" where
  "snapshot_create entries = \<lparr>snap_data = foldl snapshot_entry Map.empty entries\<rparr>"

text \<open>Every binding of the delta is inserted, in whatever order its map is iterated.\<close>

definition snapshot_merge ::
    "'j maelstrom_snapshot \<Rightarrow> 'j maelstrom_snapshot \<Rightarrow> 'j maelstrom_snapshot" where
  "snapshot_merge self delta = self\<lparr>snap_data := snap_data self ++ snap_data delta\<rparr>"

definition snapshot_use_snapshots :: bool where
  "snapshot_use_snapshots = False"

section \<open>Node identifiers\<close>

definition maelstrom_to_op_id :: "string \<Rightarrow> op_node_id res" where
  "maelstrom_to_op_id s =
     (case expect (''Maelstrom node IDs should start with 'n'' @ [CHR 0x27])
             (strip_prefix_char (CHR ''n'') s) of
        Inl p \<Rightarrow> Inl p
      | Inr t \<Rightarrow> (case expect ''Invalid node ID number'' (parse_u64 t) of
                   Inl p \<Rightarrow> Inl p
                 | Inr n \<Rightarrow> Inr (n + 1)))"

definition op_to_maelstrom_id :: "op_node_id \<Rightarrow> string" where
  "op_to_maelstrom_id i = CHR ''n'' # show_u64 (i - 1)"

section \<open>Messages on standard output\<close>

text \<open>
  One constructor per \<open>json!\<close> literal of the source; a node's output is the list of the messages it
  has written, one JSON line each. \<open>out_json\<close> is the literal itself.
\<close>

datatype 'j out_msg =
    Error_Msg string string u64 u64 string
  | Forward_Msg string string string
  | Omnipaxos_Msg string string string
  | Read_Ok string string u64 'j
  | Write_Ok string string u64
  | Cas_Ok string string u64
  | Init_Ok string string 'j

definition envelope :: "'j json_ops \<Rightarrow> string \<Rightarrow> string \<Rightarrow> (string \<times> 'j) list \<Rightarrow> 'j" where
  "envelope J src dest body =
     j_object J [(''src'', j_str J src), (''dest'', j_str J dest), (''body'', j_object J body)]"

fun out_json :: "'j json_ops \<Rightarrow> 'j out_msg \<Rightarrow> 'j" where
  "out_json J (Error_Msg src dest in_reply_to code txt) =
     envelope J src dest
       [(''type'', j_str J ''error''), (''in_reply_to'', j_u64 J in_reply_to),
        (''code'', j_u64 J code), (''text'', j_str J txt)]"
| "out_json J (Forward_Msg src dest dat) =
     envelope J src dest [(''type'', j_str J ''forward''), (''data'', j_str J dat)]"
| "out_json J (Omnipaxos_Msg src dest dat) =
     envelope J src dest [(''type'', j_str J ''omnipaxos''), (''data'', j_str J dat)]"
| "out_json J (Read_Ok src dest in_reply_to v) =
     envelope J src dest
       [(''type'', j_str J ''read_ok''), (''in_reply_to'', j_u64 J in_reply_to), (''value'', v)]"
| "out_json J (Write_Ok src dest in_reply_to) =
     envelope J src dest
       [(''type'', j_str J ''write_ok''), (''in_reply_to'', j_u64 J in_reply_to)]"
| "out_json J (Cas_Ok src dest in_reply_to) =
     envelope J src dest
       [(''type'', j_str J ''cas_ok''), (''in_reply_to'', j_u64 J in_reply_to)]"
| "out_json J (Init_Ok src dest in_reply_to) =
     envelope J src dest [(''type'', j_str J ''init_ok''), (''in_reply_to'', in_reply_to)]"

text \<open>The answers to client operations, among the messages a node writes.\<close>

fun is_reply :: "'j out_msg \<Rightarrow> bool" where
  "is_reply (Error_Msg _ _ _ _ _) = True"
| "is_reply (Read_Ok _ _ _ _) = True"
| "is_reply (Write_Ok _ _ _) = True"
| "is_reply (Cas_Ok _ _ _) = True"
| "is_reply _ = False"

section \<open>The specification: a sequential key-value store\<close>

datatype 'j kv_result = Value 'j | Written | Swapped | Not_Found | Precondition_Failed

text \<open>What one operation does to the store and what it returns: the \<open>lin-kv\<close> object.\<close>

fun kv_spec :: "'j kv_data \<Rightarrow> 'j kv_op \<Rightarrow> 'j kv_data \<times> 'j kv_result" where
  "kv_spec d (Read key) = (d, case d key of None \<Rightarrow> Not_Found | Some v \<Rightarrow> Value v)"
| "kv_spec d (Write key v) = (d(key \<mapsto> v), Written)"
| "kv_spec d (Cas key from to) =
     (case d key of
        None \<Rightarrow> (d, Not_Found)
      | Some v \<Rightarrow> if v = from then (d(key \<mapsto> to), Swapped) else (d, Precondition_Failed))"

text \<open>The message that carries a result to the client of a command.\<close>

fun reply_msg :: "string \<Rightarrow> 'j maelstrom_command \<Rightarrow> 'j kv_result \<Rightarrow> 'j out_msg" where
  "reply_msg self c (Value v) = Read_Ok self (client_src c) (msg_id c) v"
| "reply_msg self c Written = Write_Ok self (client_src c) (msg_id c)"
| "reply_msg self c Swapped = Cas_Ok self (client_src c) (msg_id c)"
| "reply_msg self c Not_Found = Error_Msg self (client_src c) (msg_id c) 20 ''key does not exist''"
| "reply_msg self c Precondition_Failed =
     Error_Msg self (client_src c) (msg_id c) 22 ''precondition failed''"

text \<open>One log entry at the replica called \<open>self\<close>: it answers only what it coordinates.\<close>

definition replica_spec ::
    "string \<Rightarrow> 'j kv_data \<Rightarrow> 'j maelstrom_command \<Rightarrow> 'j kv_data \<times> 'j out_msg list" where
  "replica_spec self d c =
     (let (d', r) = kv_spec d (op c)
      in (d', if coordinator c = self then [reply_msg self c r] else []))"

text \<open>The store after a log: the same for every replica.\<close>

definition replay :: "'j maelstrom_command list \<Rightarrow> 'j kv_data" where
  "replay log = foldl (\<lambda>d c. fst (kv_spec d (op c))) Map.empty log"

section \<open>Lemmas\<close>

lemma fst_replica_spec [simp]: "fst (replica_spec self d c) = fst (kv_spec d (op c))"
  by (simp add: replica_spec_def case_prod_beta Let_def)

lemma snd_replica_spec:
  "snd (replica_spec self d c) =
     (if coordinator c = self then [reply_msg self c (snd (kv_spec d (op c)))] else [])"
  by (simp add: replica_spec_def case_prod_beta Let_def)

lemma fst_run_log_replica_spec: "fst (run_log (replica_spec self) Map.empty log) = replay log"
  by (simp add: fst_run_log_foldl replay_def)

lemma is_reply_reply_msg [simp]: "is_reply (reply_msg self c r)"
  by (cases r) simp_all

lemma replay_append: "replay (xs @ ys) = foldl (\<lambda>d c. fst (kv_spec d (op c))) (replay xs) ys"
  by (simp add: replay_def)

text \<open>An operation reads and writes the binding of its own key only.\<close>

fun op_key :: "'j kv_op \<Rightarrow> string" where
  "op_key (Read key) = key"
| "op_key (Write key _) = key"
| "op_key (Cas key _ _) = key"

lemma kv_spec_other_key: "k \<noteq> op_key q \<Longrightarrow> fst (kv_spec d q) k = d k"
  by (cases q) (auto split: option.splits)

lemma kv_spec_local: "d (op_key q) = d' (op_key q) \<Longrightarrow> snd (kv_spec d q) = snd (kv_spec d' q)"
  by (cases q) (auto split: option.splits)

subsection \<open>Snapshots replay the log\<close>

lemma snapshot_entry_kv_spec: "snapshot_entry = (\<lambda>d c. fst (kv_spec d (op c)))"
proof (intro ext)
  fix d k and c :: "'a maelstrom_command"
  show "snapshot_entry d c k = fst (kv_spec d (op c)) k"
    by (cases "op c") (auto split: option.splits)
qed

lemma snapshot_create_data: "snap_data (snapshot_create log) = replay log"
  by (simp add: snapshot_create_def replay_def snapshot_entry_kv_spec del: snapshot_entry.simps)

fun is_cas :: "'j kv_op \<Rightarrow> bool" where
  "is_cas (Cas _ _ _) = True"
| "is_cas _ = False"

lemma foldl_snapshot_no_cas:
  assumes "\<forall>c\<in>set ys. \<not> is_cas (op c)"
  shows "foldl snapshot_entry d ys = d ++ foldl snapshot_entry Map.empty ys"
  using assms
proof (induction ys rule: rev_induct)
  case Nil
  then show ?case by simp
next
  case (snoc y ys)
  then show ?case by (cases "op y") (auto simp: map_add_def fun_eq_iff)
qed

subsection \<open>Node identifiers\<close>

lemma maelstrom_to_op_id_show [simp]:
  "maelstrom_to_op_id (CHR ''n'' # show_u64 n) = Inr (n + 1)"
  by (simp add: maelstrom_to_op_id_def)

lemma op_to_maelstrom_id_inject [simp]:
  "op_to_maelstrom_id a = op_to_maelstrom_id b \<longleftrightarrow> a = b"
  by (simp add: op_to_maelstrom_id_def)

section \<open>Properties\<close>

text \<open>
  A snapshot of a log holds exactly the store that replaying the log builds; entries that
  repeat, overwrite or fail their compare-and-swap included.
\<close>

lemma snapshot_create_replays: "snap_data (snapshot_create log) = replay log"
  by (rule snapshot_create_data)

text \<open>
  Merging the snapshot of a later part of the log into the snapshot of an earlier part gives the
  snapshot of the whole, provided the later part holds no compare-and-swap.
\<close>

lemma snapshot_merge_appends:
  assumes "\<forall>c\<in>set ys. \<not> is_cas (op c)"
  shows "snapshot_merge (snapshot_create xs) (snapshot_create ys) = snapshot_create (xs @ ys)"
  using foldl_snapshot_no_cas [OF assms, of "foldl snapshot_entry Map.empty xs"]
  by (simp add: snapshot_merge_def snapshot_create_def)

definition sample_command :: "nat kv_op \<Rightarrow> nat maelstrom_command" where
  "sample_command q = \<lparr>coordinator = ''n0'', client_src = ''c1'', msg_id = 1, op = q\<rparr>"

text \<open>
  With a compare-and-swap in the later part, merging loses it: it is evaluated against the
  bindings of the later part alone, where its key is unknown.
\<close>

lemma snapshot_merge_loses_cas:
  "\<exists>xs ys :: nat maelstrom_command list.
     snap_data (snapshot_merge (snapshot_create xs) (snapshot_create ys)) ''x'' = Some 1 \<and>
     replay (xs @ ys) ''x'' = Some 2"
  by (rule exI [of _ "[sample_command (Write ''x'' 1)]"],
      rule exI [of _ "[sample_command (Cas ''x'' 1 2)]"])
    (simp add: snapshot_merge_def snapshot_create_def replay_def sample_command_def)

text \<open>
  Node identifiers convert back and forth without loss: every consensus identifier is found
  again from the Maelstrom name written for it, and an accepted name without sign or leading zero
  is written back as it was.
\<close>

lemma node_id_roundtrip:
  "maelstrom_to_op_id (op_to_maelstrom_id i) = Inr i \<and>
   (\<exists>j. maelstrom_to_op_id (CHR ''n'' # show_u64 w) = Inr j \<and>
        op_to_maelstrom_id j = CHR ''n'' # show_u64 w)"
  by (simp add: op_to_maelstrom_id_def)


end
