(* ===== verification/Maelstrom_Node.thy ===== *)
theory Maelstrom_Node
  imports Maelstrom_Types
begin

text \<open>
  The node of \<open>src/bin/maelstrom_node.rs\<close>: its state, every method of \<open>MaelstromNode\<close>, the start-up
  of \<open>main\<close> and one iteration of its event loop. A node is a replica (locale \<open>replica\<close>): its store
  and its replies are those of the sequential store run on the decided log. The invariant
  \<open>node_inv\<close> says so of every state the event loop reaches.
\<close>

section \<open>State\<close>

text \<open>The libraries a node calls: JSON values, consensus, and the derived codecs.\<close>

record ('j, 'o, 'm, 'q) node_env =
  ne_json :: "'j json_ops"
  ne_paxos :: "('o, 'j maelstrom_command, 'j maelstrom_snapshot, 'm, 'q) omnipaxos_ops"
  ne_cmd :: "'j maelstrom_command codec"
  ne_msg :: "'m codec"

record ('j, 'o, 'm) maelstrom_node =
  node_id :: string
  omnipaxos :: 'o
  kv_store :: "'j kv_data"
  decided_idx :: nat
  msg_buffer :: "'m list"
  stdout :: "'j out_msg list"
  node_ids :: "string list"
  pending_forwards :: "'j maelstrom_command list"

section \<open>Operations\<close>

text \<open>
  One line on the standard output, which is taken to accept it: the source unwraps serialising, writing
  and flushing, so that a node whose output is closed ends.
\<close>

definition send_msg :: "('j, 'o, 'm) maelstrom_node \<Rightarrow> 'j out_msg \<Rightarrow> ('j, 'o, 'm) maelstrom_node" where
  "send_msg n msg = n\<lparr>stdout := stdout n @ [msg]\<rparr>"

definition send_error ::
    "('j, 'o, 'm) maelstrom_node \<Rightarrow> string \<Rightarrow> string \<Rightarrow> u64 \<Rightarrow> u64 \<Rightarrow> string
       \<Rightarrow> ('j, 'o, 'm) maelstrom_node" where
  "send_error n src dest in_reply_to code txt = send_msg n (Error_Msg src dest in_reply_to code txt)"

definition node_new ::
    "('j, 'o, 'm, 'q) node_env \<Rightarrow> string \<Rightarrow> string list \<Rightarrow> 'j out_msg list
       \<Rightarrow> ('j, 'o, 'm) maelstrom_node res" where
  "node_new E nid nids out =
     (case maelstrom_to_op_id nid of
        Inl p \<Rightarrow> Inl p
      | Inr my_op_id \<Rightarrow>
     (case map_res maelstrom_to_op_id nids of
        Inl p \<Rightarrow> Inl p
      | Inr all_op_ids \<Rightarrow>
     (case expect ''Failed to build OmniPaxos''
             (op_build (ne_paxos E)
               \<lparr>cfg_pid = my_op_id, cfg_configuration_id = 1, cfg_nodes = all_op_ids,
                cfg_flexible_quorum = None\<rparr>) of
        Inl p \<Rightarrow> Inl p
      | Inr paxos \<Rightarrow>
          Inr \<lparr>node_id = nid, omnipaxos = paxos, kv_store = Map.empty, decided_idx = 0,
               msg_buffer = [], stdout = out, node_ids = nids, pending_forwards = []\<rparr>)))"

definition try_append ::
    "('j, 'o, 'm, 'q) node_env \<Rightarrow> ('j, 'o, 'm) maelstrom_node \<Rightarrow> 'j maelstrom_command
       \<Rightarrow> ('j, 'o, 'm) maelstrom_node" where
  "try_append E n cmd =
     (let (ok, o') = op_append (ne_paxos E) cmd (omnipaxos n);
          n' = n\<lparr>omnipaxos := o'\<rparr>;
          retry = n'\<lparr>pending_forwards := pending_forwards n' @ [cmd]\<rparr>
      in if ok then n'
         else (case op_get_current_leader (ne_paxos E) (omnipaxos n') of
                 Some (leader_id, _) \<Rightarrow>
                   (let leader_str = op_to_maelstrom_id leader_id
                    in if leader_str \<noteq> node_id n'
                       then send_msg n' (Forward_Msg (node_id n') leader_str (enc (ne_cmd E) cmd))
                       else retry)
               | None \<Rightarrow> retry))"

definition handle_client_request ::
    "('j, 'o, 'm, 'q) node_env \<Rightarrow> ('j, 'o, 'm) maelstrom_node \<Rightarrow> 'j
       \<Rightarrow> ('j, 'o, 'm) maelstrom_node res" where
  "handle_client_request E n msg =
     (let J = ne_json E;
          body = j_index J msg ''body'';
          msg_type = unwrap_or '''' (j_as_str J (j_index J body ''type''))
      in case unwrap (j_as_str J (j_index J msg ''src'')) of
           Inl p \<Rightarrow> Inl p
         | Inr src \<Rightarrow>
        (case unwrap (j_as_u64 J (j_index J body ''msg_id'')) of
           Inl p \<Rightarrow> Inl p
         | Inr mid \<Rightarrow>
             (let key = unwrap_or '''' (j_as_str J (j_index J body ''key''));
                  submit = (\<lambda>q. Inr (try_append E n
                     \<lparr>coordinator = node_id n, client_src = src, msg_id = mid, op = q\<rparr>))
              in if msg_type = ''read'' then submit (Read key)
                 else if msg_type = ''write'' then submit (Write key (j_index J body ''value''))
                 else if msg_type = ''cas''
                 then submit (Cas key (j_index J body ''from'') (j_index J body ''to''))
                 else Inr (send_error n (node_id n) src mid 10 ''unsupported operation''))))"

definition handle_forwarded_request ::
    "('j, 'o, 'm, 'q) node_env \<Rightarrow> ('j, 'o, 'm) maelstrom_node \<Rightarrow> 'j
       \<Rightarrow> ('j, 'o, 'm) maelstrom_node res" where
  "handle_forwarded_request E n msg =
     (let J = ne_json E
      in case unwrap (j_as_str J (j_index J (j_index J msg ''body'') ''data'')) of
           Inl p \<Rightarrow> Inl p
         | Inr dat \<Rightarrow>
        (case unwrap (dec (ne_cmd E) dat) of
           Inl p \<Rightarrow> Inl p
         | Inr cmd \<Rightarrow> Inr (try_append E n cmd)))"

definition handle_omnipaxos_message ::
    "('j, 'o, 'm, 'q) node_env \<Rightarrow> ('j, 'o, 'm) maelstrom_node \<Rightarrow> 'j
       \<Rightarrow> ('j, 'o, 'm) maelstrom_node res" where
  "handle_omnipaxos_message E n msg =
     (let J = ne_json E
      in case unwrap (j_as_str J (j_index J (j_index J msg ''body'') ''data'')) of
           Inl p \<Rightarrow> Inl p
         | Inr dat \<Rightarrow>
        (case unwrap (dec (ne_msg E) dat) of
           Inl p \<Rightarrow> Inl p
         | Inr m \<Rightarrow>
             Inr (n\<lparr>omnipaxos := op_handle_incoming (ne_paxos E) m (omnipaxos n)\<rparr>)))"

definition send_outgoing_messages ::
    "('j, 'o, 'm, 'q) node_env \<Rightarrow> ('j, 'o, 'm) maelstrom_node \<Rightarrow> ('j, 'o, 'm) maelstrom_node" where
  "send_outgoing_messages E n =
     (let (msgs, o') = op_take_outgoing_messages (ne_paxos E) (omnipaxos n);
          buffer = msg_buffer n @ msgs
      in foldl (\<lambda>n msg. send_msg n
                  (Omnipaxos_Msg (node_id n)
                     (op_to_maelstrom_id (op_get_receiver (ne_paxos E) msg)) (enc (ne_msg E) msg)))
           (n\<lparr>omnipaxos := o', msg_buffer := []\<rparr>) buffer)"

definition apply_and_respond ::
    "('j, 'o, 'm) maelstrom_node \<Rightarrow> 'j maelstrom_command \<Rightarrow> ('j, 'o, 'm) maelstrom_node" where
  "apply_and_respond n cmd =
     (let is_coordinator = (coordinator cmd = node_id n)
      in case op cmd of
           Read key \<Rightarrow>
             if is_coordinator
             then (case kv_store n key of
                     Some v \<Rightarrow> send_msg n (Read_Ok (node_id n) (client_src cmd) (msg_id cmd) v)
                   | None \<Rightarrow>
                       send_error n (node_id n) (client_src cmd) (msg_id cmd) 20 ''key does not exist'')
             else n
         | Write key v \<Rightarrow>
             (let n' = n\<lparr>kv_store := (kv_store n)(key \<mapsto> v)\<rparr>
              in if is_coordinator
                 then send_msg n' (Write_Ok (node_id n') (client_src cmd) (msg_id cmd))
                 else n')
         | Cas key from to \<Rightarrow>
             (let (n', result) =
                    (case kv_store n key of
                       None \<Rightarrow> (n, Inl (20, ''key does not exist''))
                     | Some current \<Rightarrow>
                         if current \<noteq> from then (n, Inl (22, ''precondition failed''))
                         else (n\<lparr>kv_store := (kv_store n)(key \<mapsto> to)\<rparr>, Inr ()))
              in if is_coordinator
                 then (case result of
                         Inr _ \<Rightarrow> send_msg n' (Cas_Ok (node_id n') (client_src cmd) (msg_id cmd))
                       | Inl (code, txt) \<Rightarrow>
                           send_error n' (node_id n') (client_src cmd) (msg_id cmd) code txt)
                 else n'))"

fun apply_entry ::
    "('j, 'o, 'm) maelstrom_node \<Rightarrow> ('j maelstrom_command, 'j maelstrom_snapshot) log_entry
       \<Rightarrow> ('j, 'o, 'm) maelstrom_node" where
  "apply_entry n (LDecided cmd) = apply_and_respond n cmd"
| "apply_entry n (LSnapshotted snapshot) = n\<lparr>kv_store := snap_data snapshot\<rparr>"
| "apply_entry n LOther = n"

definition process_decided_entries ::
    "('j, 'o, 'm, 'q) node_env \<Rightarrow> ('j, 'o, 'm) maelstrom_node \<Rightarrow> ('j, 'o, 'm) maelstrom_node res" where
  "process_decided_entries E n =
     (let new_decided_idx = op_get_decided_idx (ne_paxos E) (omnipaxos n)
      in if decided_idx n \<ge> new_decided_idx then Inr n
         else (case unwrap (op_read_decided_suffix (ne_paxos E) (decided_idx n) (omnipaxos n)) of
                 Inl p \<Rightarrow> Inl p
               | Inr entries \<Rightarrow>
                   Inr (foldl apply_entry (n\<lparr>decided_idx := new_decided_idx\<rparr>) entries)))"

definition node_tick ::
    "('j, 'o, 'm, 'q) node_env \<Rightarrow> ('j, 'o, 'm) maelstrom_node \<Rightarrow> ('j, 'o, 'm) maelstrom_node" where
  "node_tick E n =
     (let n' = n\<lparr>omnipaxos := op_tick (ne_paxos E) (omnipaxos n)\<rparr>;
          pending = pending_forwards n'
      in foldl (try_append E) (n'\<lparr>pending_forwards := []\<rparr>) pending)"

section \<open>The main loop\<close>

text \<open>
  Start-up of \<open>main\<close>: the first line is the \<open>init\<close> message; the node answers it, builds itself and,
  when it is called \<open>n0\<close>, asks for leadership.
\<close>

definition node_start ::
    "('j, 'o, 'm, 'q) node_env \<Rightarrow> string \<Rightarrow> ('j, 'o, 'm) maelstrom_node res" where
  "node_start E line =
     (let J = ne_json E
      in case expect ''Invalid JSON for init'' (j_from_str J line) of
           Inl p \<Rightarrow> Inl p
         | Inr msg \<Rightarrow>
        (case expect ''Missing node_id in init''
                (j_as_str J (j_index J (j_index J msg ''body'') ''node_id'')) of
           Inl p \<Rightarrow> Inl p
         | Inr my_node_id \<Rightarrow>
        (case expect ''Missing node_ids in init''
                (j_as_array J (j_index J (j_index J msg ''body'') ''node_ids'')) of
           Inl p \<Rightarrow> Inl p
         | Inr vs \<Rightarrow>
        (case map_res (\<lambda>v. unwrap (j_as_str J v)) vs of
           Inl p \<Rightarrow> Inl p
         | Inr nids \<Rightarrow>
        (case unwrap (j_as_str J (j_index J msg ''src'')) of
           Inl p \<Rightarrow> Inl p
         | Inr src \<Rightarrow>
        (case node_new E my_node_id nids
                [Init_Ok my_node_id src (j_index J (j_index J msg ''body'') ''msg_id'')] of
           Inl p \<Rightarrow> Inl p
         | Inr n \<Rightarrow>
             Inr (if my_node_id = ''n0''
                  then send_outgoing_messages E
                         (n\<lparr>omnipaxos := op_try_become_leader (ne_paxos E) (omnipaxos n)\<rparr>)
                  else n)))))))"

text \<open>The dispatch on the message type, and the two branches of the \<open>select!\<close> loop.\<close>

definition dispatch ::
    "('j, 'o, 'm, 'q) node_env \<Rightarrow> ('j, 'o, 'm) maelstrom_node \<Rightarrow> 'j
       \<Rightarrow> ('j, 'o, 'm) maelstrom_node res" where
  "dispatch E n msg =
     (let J = ne_json E;
          msg_type = unwrap_or '''' (j_as_str J (j_index J (j_index J msg ''body'') ''type''))
      in if msg_type = ''read'' \<or> msg_type = ''write'' \<or> msg_type = ''cas''
         then handle_client_request E n msg
         else if msg_type = ''omnipaxos'' then handle_omnipaxos_message E n msg
         else if msg_type = ''forward'' then handle_forwarded_request E n msg
         else Inr n)"

definition on_line ::
    "('j, 'o, 'm, 'q) node_env \<Rightarrow> ('j, 'o, 'm) maelstrom_node \<Rightarrow> string
       \<Rightarrow> ('j, 'o, 'm) maelstrom_node res" where
  "on_line E n line =
     (case j_from_str (ne_json E) line of
        None \<Rightarrow> Inr n
      | Some msg \<Rightarrow>
          (case dispatch E n msg of
             Inl p \<Rightarrow> Inl p
           | Inr n' \<Rightarrow> process_decided_entries E (send_outgoing_messages E n')))"

definition on_tick ::
    "('j, 'o, 'm, 'q) node_env \<Rightarrow> ('j, 'o, 'm) maelstrom_node \<Rightarrow> ('j, 'o, 'm) maelstrom_node res" where
  "on_tick E n = process_decided_entries E (send_outgoing_messages E (node_tick E n))"

datatype node_event = Line string | Tick

fun node_step ::
    "('j, 'o, 'm, 'q) node_env \<Rightarrow> ('j, 'o, 'm) maelstrom_node \<Rightarrow> node_event
       \<Rightarrow> ('j, 'o, 'm) maelstrom_node res" where
  "node_step E n (Line line) = on_line E n line"
| "node_step E n Tick = on_tick E n"

definition node_run ::
    "('j, 'o, 'm, 'q) node_env \<Rightarrow> ('j, 'o, 'm) maelstrom_node \<Rightarrow> node_event list
       \<Rightarrow> ('j, 'o, 'm) maelstrom_node res" where
  "node_run E = fold_res (node_step E)"

text \<open>
  The thread that reads the standard input queues every line that is not empty, until the input
  cannot be read or the queue is closed; \<open>main\<close> takes the first line as the initial message.
\<close>

fun stdin_reader :: "('q \<Rightarrow> string \<Rightarrow> 'q option) \<Rightarrow> 'q \<Rightarrow> ('e + string) list \<Rightarrow> 'q" where
  "stdin_reader stdin_tx q [] = q"
| "stdin_reader stdin_tx q (Inr line # ls) =
     (if line \<noteq> []
      then (case stdin_tx q line of None \<Rightarrow> q | Some q' \<Rightarrow> stdin_reader stdin_tx q' ls)
      else stdin_reader stdin_tx q ls)"
| "stdin_reader stdin_tx q (Inl e # ls) = q"

definition node_main ::
    "('j, 'o, 'm, 'q) node_env \<Rightarrow> string list \<Rightarrow> node_event list \<Rightarrow> ('j, 'o, 'm) maelstrom_node res" where
  "node_main E queue evs =
     bind_res (expect ''Expected init message on stdin'' (case queue of [] \<Rightarrow> None | line # _ \<Rightarrow> Some line))
       (\<lambda>line. bind_res (node_start E line) (\<lambda>n. node_run E n evs))"

text \<open>An open queue takes the lines in order, without the empty ones, up to the first read error.\<close>

lemma stdin_reader_lines:
  "stdin_reader (\<lambda>q line. Some (q @ [line])) q (map Inr ls @ rest) =
     stdin_reader (\<lambda>q line. Some (q @ [line])) (q @ filter (\<lambda>line. line \<noteq> []) ls) rest"
  by (induction ls arbitrary: q) simp_all

section \<open>What each operation leaves alone\<close>

lemma send_msg_simps [simp]:
  "node_id (send_msg n m) = node_id n" "omnipaxos (send_msg n m) = omnipaxos n"
  "kv_store (send_msg n m) = kv_store n" "decided_idx (send_msg n m) = decided_idx n"
  "msg_buffer (send_msg n m) = msg_buffer n" "node_ids (send_msg n m) = node_ids n"
  "pending_forwards (send_msg n m) = pending_forwards n" "stdout (send_msg n m) = stdout n @ [m]"
  by (simp_all add: send_msg_def)

lemma apply_and_respond_frame [frame]:
  "node_id (apply_and_respond n c) = node_id n" "omnipaxos (apply_and_respond n c) = omnipaxos n"
  "decided_idx (apply_and_respond n c) = decided_idx n"
  "msg_buffer (apply_and_respond n c) = msg_buffer n"
  "pending_forwards (apply_and_respond n c) = pending_forwards n"
  by (simp_all add: apply_and_respond_def send_error_def Let_def
      split: kv_op.split option.split sum.split)

lemma foldl_apply_frame [frame]:
  "node_id (foldl apply_and_respond n cs) = node_id n"
  "omnipaxos (foldl apply_and_respond n cs) = omnipaxos n"
  "decided_idx (foldl apply_and_respond n cs) = decided_idx n"
  "msg_buffer (foldl apply_and_respond n cs) = msg_buffer n"
  "pending_forwards (foldl apply_and_respond n cs) = pending_forwards n"
  by (induction cs arbitrary: n) (simp_all add: frame)

lemma foldl_apply_entry_decided:
  "foldl apply_entry n (map LDecided cs) = foldl apply_and_respond n cs"
  by (induction cs arbitrary: n) simp_all

text \<open>What applying a command writes are replies, so it adds no forward.\<close>

lemma apply_and_respond_stdout:
  "stdout (apply_and_respond n c) = stdout n @ snd (replica_spec (node_id n) (kv_store n) c)"
proof (cases "op c")
  case (Read k)
  then show ?thesis
    by (cases "kv_store n k") (simp_all add: apply_and_respond_def send_error_def snd_replica_spec)
next
  case (Write k v)
  then show ?thesis by (simp add: apply_and_respond_def snd_replica_spec Let_def)
next
  case (Cas k old new)
  then show ?thesis
    by (cases "kv_store n k") (simp_all add: apply_and_respond_def send_error_def snd_replica_spec)
qed

lemma apply_and_respond_store:
  "kv_store (apply_and_respond n c) = fst (replica_spec (node_id n) (kv_store n) c)"
proof (cases "op c")
  case (Read k)
  then show ?thesis
    by (cases "kv_store n k") (simp_all add: apply_and_respond_def send_error_def)
next
  case (Write k v)
  then show ?thesis by (simp add: apply_and_respond_def Let_def)
next
  case (Cas k old new)
  then show ?thesis
    by (cases "kv_store n k") (simp_all add: apply_and_respond_def send_error_def)
qed

section \<open>A node is a replica\<close>

abbreviation replies :: "('j, 'o, 'm) maelstrom_node \<Rightarrow> 'j out_msg list" where
  "replies n \<equiv> filter is_reply (stdout n)"

lemma filter_is_reply_spec:
  "filter is_reply (snd (replica_spec self d c)) = snd (replica_spec self d c)"
  by (simp add: snd_replica_spec)

interpretation mn: replica apply_and_respond kv_store replies node_id replica_spec
  by unfold_locales
    (simp_all add: apply_and_respond_store apply_and_respond_stdout filter_is_reply_spec frame
      del: fst_replica_spec)

section \<open>The invariant of the event loop\<close>

text \<open>
  The applied index is within the decided log, the store is the replay of what was applied, the
  replies written so far are those of the sequential store, in log order, and the message buffer is
  empty between two events.
\<close>

definition node_inv ::
    "('o \<Rightarrow> 'j maelstrom_command list) \<Rightarrow> ('j, 'o, 'm) maelstrom_node \<Rightarrow> bool" where
  "node_inv decided n \<longleftrightarrow>
     decided_idx n \<le> length (decided (omnipaxos n)) \<and>
     kv_store n = replay (take (decided_idx n) (decided (omnipaxos n))) \<and>
     replies n =
       snd (run_log (replica_spec (node_id n)) Map.empty
              (take (decided_idx n) (decided (omnipaxos n)))) \<and>
     msg_buffer n = []"

text \<open>A quiet change: the consensus state moves on, messages other than replies are written, the
  applied part stays.\<close>

definition quiet ::
    "('o \<Rightarrow> 'j maelstrom_command list) \<Rightarrow> ('j, 'o, 'm) maelstrom_node
       \<Rightarrow> ('j, 'o, 'm) maelstrom_node \<Rightarrow> bool" where
  "quiet decided n n' \<longleftrightarrow>
     node_id n' = node_id n \<and> kv_store n' = kv_store n \<and> decided_idx n' = decided_idx n \<and>
     replies n' = replies n \<and> msg_buffer n' = msg_buffer n \<and>
     prefix (decided (omnipaxos n)) (decided (omnipaxos n'))"

lemma quiet_refl [simp, intro]: "quiet decided n n"
  by (simp add: quiet_def)

lemma quiet_trans: "quiet decided n n' \<Longrightarrow> quiet decided n' n'' \<Longrightarrow> quiet decided n n''"
  by (auto simp: quiet_def intro: prefix_order.trans)

lemma quiet_foldl:
  assumes "\<And>n x. quiet decided n (f n x)"
  shows "quiet decided n (foldl f n xs)"
proof (induction xs arbitrary: n)
  case Nil
  then show ?case by simp
next
  case (Cons x xs)
  from quiet_trans [OF assms Cons.IH] show ?case by simp
qed

lemma quiet_pending [simp]: "quiet decided n n' \<Longrightarrow> quiet decided n (n'\<lparr>pending_forwards := cs\<rparr>)"
  by (simp add: quiet_def)

lemma quiet_send_msg [simp]: "quiet decided n n' \<Longrightarrow> \<not> is_reply m \<Longrightarrow> quiet decided n (send_msg n' m)"
  by (simp add: quiet_def)

lemma quiet_paxos:
  "prefix (decided (omnipaxos n)) (decided o') \<Longrightarrow> quiet decided n (n\<lparr>omnipaxos := o'\<rparr>)"
  by (simp add: quiet_def)

lemma node_inv_quiet:
  assumes "node_inv decided n" "quiet decided n n'"
  shows "node_inv decided n'"
  using assms prefix_length_le [of "decided (omnipaxos n)" "decided (omnipaxos n')"]
  by (auto simp: node_inv_def quiet_def dest: prefix_take_eq)

section \<open>The commands a node hands on\<close>

text \<open>The command a client message asks for, and the command a forward carries.\<close>

definition msg_type_of :: "'j json_ops \<Rightarrow> 'j \<Rightarrow> string" where
  "msg_type_of J msg = unwrap_or '''' (j_as_str J (j_index J (j_index J msg ''body'') ''type''))"

definition client_command ::
    "('j, 'o, 'm, 'q) node_env \<Rightarrow> string \<Rightarrow> 'j \<Rightarrow> 'j maelstrom_command option" where
  "client_command E nid msg =
     (let J = ne_json E; body = j_index J msg ''body''; ty = msg_type_of J msg;
          key = unwrap_or '''' (j_as_str J (j_index J body ''key''))
      in case (j_as_str J (j_index J msg ''src''), j_as_u64 J (j_index J body ''msg_id'')) of
           (Some src, Some mid) \<Rightarrow>
             map_option (\<lambda>q. \<lparr>coordinator = nid, client_src = src, msg_id = mid, op = q\<rparr>)
               (if ty = ''read'' then Some (Read key)
                else if ty = ''write'' then Some (Write key (j_index J body ''value''))
                else if ty = ''cas'' then Some (Cas key (j_index J body ''from'') (j_index J body ''to''))
                else None)
         | _ \<Rightarrow> None)"

definition forward_command ::
    "('j, 'o, 'm, 'q) node_env \<Rightarrow> 'j \<Rightarrow> 'j maelstrom_command option" where
  "forward_command E msg =
     (let J = ne_json E
      in if msg_type_of J msg = ''forward''
         then Option.bind (j_as_str J (j_index J (j_index J msg ''body'') ''data'')) (dec (ne_cmd E))
         else None)"

text \<open>
  Everything a node has passed on: proposed to its consensus instance, waiting for a retry, or
  written to another node as a forward.
\<close>

definition forwarded_cmds ::
    "('j, 'o, 'm, 'q) node_env \<Rightarrow> ('j, 'o, 'm) maelstrom_node \<Rightarrow> 'j maelstrom_command set" where
  "forwarded_cmds E n =
     {c. \<exists>src dest dat. Forward_Msg src dest dat \<in> set (stdout n) \<and> dec (ne_cmd E) dat = Some c}"

definition handed_on ::
    "('j, 'o, 'm, 'q) node_env \<Rightarrow> ('o \<Rightarrow> 'j maelstrom_command set) \<Rightarrow> ('j, 'o, 'm) maelstrom_node
       \<Rightarrow> 'j maelstrom_command set" where
  "handed_on E proposed n =
     proposed (omnipaxos n) \<union> set (pending_forwards n) \<union> forwarded_cmds E n"

text \<open>Writing anything but a forward hands nothing on.\<close>

fun is_forward :: "'j out_msg \<Rightarrow> bool" where
  "is_forward (Forward_Msg _ _ _) = True"
| "is_forward _ = False"

lemma forwarded_cmds_send [simp]:
  "\<not> is_forward m \<Longrightarrow> forwarded_cmds E (send_msg n m) = forwarded_cmds E n"
  by (auto simp: forwarded_cmds_def)

lemma forwarded_cmds_update [simp]:
  "forwarded_cmds E (n\<lparr>omnipaxos := o'\<rparr>) = forwarded_cmds E n"
  "forwarded_cmds E (n\<lparr>pending_forwards := cs\<rparr>) = forwarded_cmds E n"
  "forwarded_cmds E (n\<lparr>decided_idx := i\<rparr>) = forwarded_cmds E n"
  "forwarded_cmds E (n\<lparr>msg_buffer := ms\<rparr>) = forwarded_cmds E n"
  by (simp_all add: forwarded_cmds_def)

lemma reply_not_forward: "is_reply m \<Longrightarrow> \<not> is_forward m"
  by (cases m) simp_all

lemma foldl_apply_forwarded: "forwarded_cmds E (foldl apply_and_respond n cs) = forwarded_cmds E n"
proof (induction cs arbitrary: n)
  case Nil
  then show ?case by simp
next
  case (Cons c cs)
  have "Forward_Msg a b d \<notin> set (snd (replica_spec (node_id n) (kv_store n) c))" for a b d
    using reply_not_forward [OF is_reply_reply_msg, of "node_id n" c]
    by (metis empty_iff empty_set is_forward.simps(1) set_ConsD snd_replica_spec)
  then have "forwarded_cmds E (apply_and_respond n c) = forwarded_cmds E n"
    by (auto simp: forwarded_cmds_def apply_and_respond_stdout)
  with Cons show ?case by simp
qed

section \<open>Nodes over libraries that keep their promises\<close>

locale node_libs =
  J: json_lib "ne_json E" + P: omnipaxos_lib "ne_paxos E" decided proposed +
  CC: codec_lib "ne_cmd E" + MC: codec_lib "ne_msg E"
  for E :: "('j, 'o, 'm, 'q) node_env"
    and decided :: "'o \<Rightarrow> 'j maelstrom_command list"
    and proposed :: "'o \<Rightarrow> 'j maelstrom_command set"
begin

lemma try_append_quiet: "quiet decided n (try_append E n c)"
proof -
  have "quiet decided n (n\<lparr>omnipaxos := snd (op_append (ne_paxos E) c (omnipaxos n))\<rparr>)"
    by (rule quiet_paxos) (rule P.append_decided)
  then show ?thesis
    by (auto simp: try_append_def Let_def case_prod_beta split: option.split)
qed

lemma send_outgoing_quiet: "quiet decided n (send_outgoing_messages E n)"
  if "msg_buffer n = []"
proof -
  let ?n' = "n\<lparr>omnipaxos := snd (op_take_outgoing_messages (ne_paxos E) (omnipaxos n)),
                msg_buffer := []\<rparr>"
  have "quiet decided n ?n'"
    using that by (simp add: quiet_def P.take_decided)
  moreover have "quiet decided ?n' (send_outgoing_messages E n)"
    unfolding send_outgoing_messages_def Let_def case_prod_beta by (rule quiet_foldl) simp
  ultimately show ?thesis by (rule quiet_trans)
qed

lemma tick_quiet: "quiet decided n (node_tick E n)"
proof -
  let ?n' = "n\<lparr>omnipaxos := op_tick (ne_paxos E) (omnipaxos n), pending_forwards := []\<rparr>"
  have "quiet decided n ?n'"
    by (simp add: quiet_def P.tick_decided)
  moreover have "quiet decided ?n' (node_tick E n)"
    unfolding node_tick_def Let_def by (simp add: quiet_foldl try_append_quiet)
  ultimately show ?thesis by (rule quiet_trans)
qed

lemma forwarded_quiet: "handle_forwarded_request E n msg = Inr n' \<Longrightarrow> quiet decided n n'"
  by (auto simp: handle_forwarded_request_def Let_def try_append_quiet split: sum.splits)

lemma omnipaxos_message_quiet: "handle_omnipaxos_message E n msg = Inr n' \<Longrightarrow> quiet decided n n'"
  by (auto simp: handle_omnipaxos_message_def Let_def quiet_paxos P.incoming_decided
      split: sum.splits)

lemma dispatch_quiet: "dispatch E n msg = Inr n' \<Longrightarrow> quiet decided n n'"
  by (auto simp: dispatch_def handle_client_request_def Let_def try_append_quiet
      split: sum.splits if_splits dest: forwarded_quiet omnipaxos_message_quiet)

lemma dispatch_buffer: "dispatch E n msg = Inr n' \<Longrightarrow> msg_buffer n' = msg_buffer n"
  by (drule dispatch_quiet) (simp add: quiet_def)

text \<open>Processing the decided entries never panics and applies all of them.\<close>

lemma process_decided:
  assumes inv: "node_inv decided n"
  obtains n' where "process_decided_entries E n = Inr n'" "node_inv decided n'"
    "omnipaxos n' = omnipaxos n" "node_id n' = node_id n"
    "pending_forwards n' = pending_forwards n"
    "decided_idx n' = length (decided (omnipaxos n'))"
proof (cases "decided_idx n \<ge> length (decided (omnipaxos n))")
  case True
  with inv that [of n] show thesis
    by (simp add: process_decided_entries_def P.decided_idx node_inv_def)
next
  case False
  let ?log = "decided (omnipaxos n)"
  let ?m = "n\<lparr>decided_idx := length ?log\<rparr>"
  let ?n' = "foldl apply_and_respond ?m (drop (decided_idx n) ?log)"
  have eq: "process_decided_entries E n = Inr ?n'"
    using False
    by (simp add: process_decided_entries_def P.decided_idx P.read_suffix
        foldl_apply_entry_decided Let_def)
  have "kv_store ?m = fst (run_log (replica_spec (node_id ?m)) Map.empty (take (decided_idx n) ?log))"
    and "replies ?m = snd (run_log (replica_spec (node_id ?m)) Map.empty (take (decided_idx n) ?log))"
    using inv by (simp_all add: node_inv_def fst_run_log_replica_spec)
  note mn.catch_up [OF this]
  with inv have "node_inv decided ?n'"
    by (simp add: node_inv_def frame fst_run_log_replica_spec)
  with eq show thesis by (intro that [of ?n']) (simp_all add: frame)
qed

lemma on_tick_inv:
  assumes "node_inv decided n"
  obtains n' where "on_tick E n = Inr n'" "node_inv decided n'"
    "decided_idx n' = length (decided (omnipaxos n'))"
proof -
  have q: "quiet decided n (node_tick E n)" by (rule tick_quiet)
  with assms have "msg_buffer (node_tick E n) = []" by (simp add: quiet_def node_inv_def)
  with q have "quiet decided n (send_outgoing_messages E (node_tick E n))"
    by (blast intro: quiet_trans send_outgoing_quiet)
  with assms have "node_inv decided (send_outgoing_messages E (node_tick E n))"
    by (rule node_inv_quiet)
  then show thesis by (rule process_decided) (auto simp: on_tick_def intro: that)
qed

lemma on_line_inv:
  assumes "node_inv decided n" "dispatch E n msg = Inr m" "j_from_str (ne_json E) line = Some msg"
  obtains n' where "on_line E n line = Inr n'" "node_inv decided n'"
    "decided_idx n' = length (decided (omnipaxos n'))"
proof -
  have q: "quiet decided n m" using assms(2) by (rule dispatch_quiet)
  with assms(1) have "msg_buffer m = []" by (simp add: quiet_def node_inv_def)
  with q have "quiet decided n (send_outgoing_messages E m)"
    by (blast intro: quiet_trans send_outgoing_quiet)
  with assms(1) have "node_inv decided (send_outgoing_messages E m)"
    by (rule node_inv_quiet)
  then show thesis by (rule process_decided) (use assms in \<open>auto simp: on_line_def intro: that\<close>)
qed

lemma step_inv:
  assumes "node_inv decided n" "node_step E n ev = Inr n'"
  shows "node_inv decided n'"
proof (cases ev)
  case Tick
  with assms show ?thesis by (auto elim: on_tick_inv)
next
  case (Line line)
  show ?thesis
  proof (cases "j_from_str (ne_json E) line")
    case None
    with Line assms show ?thesis by (simp add: on_line_def)
  next
    case (Some msg)
    with Line assms(2) obtain m where "dispatch E n msg = Inr m"
      by (auto simp: on_line_def split: sum.splits)
    with Some Line assms show ?thesis by (auto elim: on_line_inv)
  qed
qed

text \<open>After a tick or a message nothing that is decided is left unapplied.\<close>

lemma step_catches_up:
  assumes "node_inv decided n" "node_step E n ev = Inr n'"
    and "case ev of Tick \<Rightarrow> True | Line line \<Rightarrow> j_from_str (ne_json E) line \<noteq> None"
  shows "decided_idx n' = length (decided (omnipaxos n'))"
proof (cases ev)
  case Tick
  with assms show ?thesis by (auto elim: on_tick_inv)
next
  case (Line line)
  with assms(2,3) obtain msg m where "j_from_str (ne_json E) line = Some msg" "dispatch E n msg = Inr m"
    by (auto simp: on_line_def split: sum.splits)
  with Line assms(1,2) show ?thesis by (auto elim: on_line_inv)
qed

lemma run_inv: "node_inv decided n \<Longrightarrow> node_run E n evs = Inr n' \<Longrightarrow> node_inv decided n'"
  unfolding node_run_def by (erule (1) fold_res_invariant) (rule step_inv)

subsection \<open>Nothing is handed on that was not asked for\<close>

lemma forwarded_cmds_forward [simp]:
  "forwarded_cmds E (send_msg n (Forward_Msg a b (enc (ne_cmd E) c))) = insert c (forwarded_cmds E n)"
proof (intro set_eqI iffI)
  fix x
  assume "x \<in> forwarded_cmds E (send_msg n (Forward_Msg a b (enc (ne_cmd E) c)))"
  then show "x \<in> insert c (forwarded_cmds E n)"
    by (auto simp: forwarded_cmds_def)
next
  fix x
  assume "x \<in> insert c (forwarded_cmds E n)"
  then show "x \<in> forwarded_cmds E (send_msg n (Forward_Msg a b (enc (ne_cmd E) c)))"
    by (simp add: forwarded_cmds_def) (metis CC.dec_enc)
qed

lemma try_append_handed: "handed_on E proposed (try_append E n c) \<subseteq> insert c (handed_on E proposed n)"
proof -
  let ?n' = "n\<lparr>omnipaxos := snd (op_append (ne_paxos E) c (omnipaxos n))\<rparr>"
  have base: "handed_on E proposed ?n' \<subseteq> insert c (handed_on E proposed n)"
    using P.append_proposed [of c "omnipaxos n"] by (auto simp: handed_on_def)
  have "handed_on E proposed (?n'\<lparr>pending_forwards := pending_forwards n @ [c]\<rparr>)
          \<subseteq> insert c (handed_on E proposed n)"
    using base by (auto simp: handed_on_def)
  moreover have "handed_on E proposed (send_msg ?n' (Forward_Msg a b (enc (ne_cmd E) c)))
          \<subseteq> insert c (handed_on E proposed n)" for a b
    using base by (auto simp: handed_on_def)
  ultimately show ?thesis
    using base by (auto simp: try_append_def Let_def case_prod_beta split: option.split)
qed

lemma foldl_try_append_handed:
  "handed_on E proposed (foldl (try_append E) n cs) \<subseteq> set cs \<union> handed_on E proposed n"
proof (induction cs arbitrary: n)
  case Nil
  then show ?case by simp
next
  case (Cons c cs)
  from Cons.IH [of "try_append E n c"] try_append_handed [of n c] show ?case by auto
qed

lemma tick_handed: "handed_on E proposed (node_tick E n) \<subseteq> handed_on E proposed n"
  using foldl_try_append_handed
    [of "n\<lparr>omnipaxos := op_tick (ne_paxos E) (omnipaxos n), pending_forwards := []\<rparr>"
        "pending_forwards n"]
  by (auto simp: node_tick_def Let_def handed_on_def P.tick_proposed)

lemma foldl_send_handed:
  assumes "\<And>n m. \<not> is_forward (f n m)"
  shows "handed_on E proposed (foldl (\<lambda>n m. send_msg n (f n m)) n ms) = handed_on E proposed n"
  by (induction ms arbitrary: n) (simp_all add: handed_on_def assms)

lemma send_outgoing_handed: "handed_on E proposed (send_outgoing_messages E n) = handed_on E proposed n"
  unfolding send_outgoing_messages_def Let_def case_prod_beta
  by (subst foldl_send_handed) (simp_all add: handed_on_def P.take_proposed)

lemma process_decided_handed:
  assumes "node_inv decided n" "process_decided_entries E n = Inr n'"
  shows "handed_on E proposed n' = handed_on E proposed n"
  using assms
  by (auto simp: process_decided_entries_def P.decided_idx P.read_suffix foldl_apply_entry_decided
      Let_def handed_on_def frame foldl_apply_forwarded node_inv_def
      split: if_splits sum.splits)

lemma dispatch_handed:
  assumes "dispatch E n msg = Inr n'"
  shows "handed_on E proposed n' \<subseteq> handed_on E proposed n \<union>
           set_option (client_command E (node_id n) msg) \<union> set_option (forward_command E msg)"
proof -
  let ?ty = "msg_type_of (ne_json E) msg"
  consider (client) "?ty = ''read'' \<or> ?ty = ''write'' \<or> ?ty = ''cas''" | (paxos) "?ty = ''omnipaxos''"
    | (fwd) "?ty = ''forward''" | (other) "?ty \<notin> {''read'', ''write'', ''cas'', ''omnipaxos'', ''forward''}"
    by blast
  then show ?thesis
  proof cases
    case client
    with assms obtain c where "n' = try_append E n c" "client_command E (node_id n) msg = Some c"
      by (auto simp: dispatch_def handle_client_request_def client_command_def msg_type_of_def Let_def
          split: sum.splits)
    with try_append_handed [of n c] show ?thesis by auto
  next
    case paxos
    with assms show ?thesis
      by (auto simp: dispatch_def handle_omnipaxos_message_def msg_type_of_def Let_def handed_on_def
          P.incoming_proposed split: sum.splits)
  next
    case fwd
    with assms obtain c where "n' = try_append E n c" "forward_command E msg = Some c"
      by (auto simp: dispatch_def handle_forwarded_request_def forward_command_def msg_type_of_def
          Let_def split: sum.splits)
    with try_append_handed [of n c] show ?thesis by auto
  next
    case other
    with assms show ?thesis by (auto simp: dispatch_def msg_type_of_def Let_def)
  qed
qed

text \<open>The state before the decided entries are processed, for either kind of event.\<close>

lemma step_cases:
  assumes inv: "node_inv decided n" and step: "node_step E n ev = Inr n'"
  obtains "n' = n"
  | m where "quiet decided n (send_outgoing_messages E m)"
      "process_decided_entries E (send_outgoing_messages E m) = Inr n'"
      "(ev = Tick \<and> m = node_tick E n) \<or>
       (\<exists>line msg. ev = Line line \<and> j_from_str (ne_json E) line = Some msg \<and> dispatch E n msg = Inr m)"
proof -
  have quiet: "quiet decided n m \<Longrightarrow> quiet decided n (send_outgoing_messages E m)" for m
    using inv by (metis node_inv_def node_inv_quiet quiet_trans send_outgoing_quiet)
  show thesis
  proof (cases ev)
    case Tick
    with step show thesis by (intro that(2) [OF quiet [OF tick_quiet]]) (auto simp: on_tick_def)
  next
    case (Line line)
    show thesis
    proof (cases "j_from_str (ne_json E) line")
      case None
      with Line step show thesis by (intro that(1)) (simp add: on_line_def)
    next
      case (Some msg)
      with Line step obtain m where "dispatch E n msg = Inr m"
        "process_decided_entries E (send_outgoing_messages E m) = Inr n'"
        by (auto simp: on_line_def split: sum.splits)
      with Line Some show thesis by (intro that(2) [OF quiet [OF dispatch_quiet]]) auto
    qed
  qed
qed

text \<open>An event hands on at most the command of its client message or of its forward.\<close>

lemma step_handed:
  assumes inv: "node_inv decided n" and step: "node_step E n ev = Inr n'"
  shows "handed_on E proposed n' \<subseteq> handed_on E proposed n \<union>
           {c. \<exists>line msg. ev = Line line \<and> j_from_str (ne_json E) line = Some msg \<and>
                 (client_command E (node_id n) msg = Some c \<or> forward_command E msg = Some c)}"
  using inv step
proof (cases rule: step_cases)
  case 1
  then show ?thesis by simp
next
  case (2 m)
  have "node_inv decided (send_outgoing_messages E m)"
    using inv 2(1) by (rule node_inv_quiet)
  then have "handed_on E proposed n' = handed_on E proposed m"
    using 2(2) by (simp add: process_decided_handed send_outgoing_handed)
  with 2(3) tick_handed [of n] dispatch_handed [of n] show ?thesis by fastforce
qed

lemma step_frame:
  assumes inv: "node_inv decided n" and step: "node_step E n ev = Inr n'"
  shows "node_id n' = node_id n" "prefix (decided (omnipaxos n)) (decided (omnipaxos n'))"
    "decided_idx n \<le> decided_idx n'"
proof -
  have "node_id n' = node_id n \<and> prefix (decided (omnipaxos n)) (decided (omnipaxos n')) \<and>
        decided_idx n \<le> decided_idx n'"
    using inv step
  proof (cases rule: step_cases)
    case 1
    then show ?thesis by simp
  next
    case (2 m)
    let ?s = "send_outgoing_messages E m"
    have s: "node_inv decided ?s" using inv 2(1) by (rule node_inv_quiet)
    obtain k where "process_decided_entries E ?s = Inr k" "omnipaxos k = omnipaxos ?s"
      "node_id k = node_id ?s" "decided_idx k = length (decided (omnipaxos k))"
      using process_decided [OF s] by blast
    with 2(1,2) s show ?thesis by (simp add: quiet_def node_inv_def)
  qed
  then show "node_id n' = node_id n" "prefix (decided (omnipaxos n)) (decided (omnipaxos n'))"
    "decided_idx n \<le> decided_idx n'" by simp_all
qed

subsection \<open>Messages between nodes\<close>

lemma read_forward:
  "dispatch E n (out_json (ne_json E) (Forward_Msg a b (enc (ne_cmd E) c))) =
     Inr (try_append E n c)"
  by (simp add: dispatch_def envelope_def handle_forwarded_request_def Let_def)

lemma read_omnipaxos:
  "dispatch E n (out_json (ne_json E) (Omnipaxos_Msg a b (enc (ne_msg E) m))) =
     Inr (n\<lparr>omnipaxos := op_handle_incoming (ne_paxos E) m (omnipaxos n)\<rparr>)"
  by (simp add: dispatch_def envelope_def handle_omnipaxos_message_def Let_def)

lemma read_reply: "is_reply r \<Longrightarrow> dispatch E n (out_json (ne_json E) r) = Inr n"
  by (cases r) (simp_all add: dispatch_def envelope_def Let_def)

subsection \<open>Start-up\<close>

lemma new_inv:
  assumes "node_new E nid nids out = Inr n" "\<forall>m\<in>set out. \<not> is_reply m"
  shows "node_inv decided n"
  using assms
  by (auto simp: node_new_def node_inv_def replay_def filter_empty_conv
      dest!: P.build_decided split: sum.splits)

lemma start_inv:
  assumes "node_start E line = Inr n"
  shows "node_inv decided n"
proof -
  obtain nid nids src v m where new: "node_new E nid nids [Init_Ok nid src v] = Inr m"
    and n: "n = (if nid = ''n0''
                 then send_outgoing_messages E
                        (m\<lparr>omnipaxos := op_try_become_leader (ne_paxos E) (omnipaxos m)\<rparr>)
                 else m)"
    using assms by (auto simp: node_start_def Let_def split: sum.splits)
  from new have inv: "node_inv decided m" by (rule new_inv) simp
  let ?l = "m\<lparr>omnipaxos := op_try_become_leader (ne_paxos E) (omnipaxos m)\<rparr>"
  have "quiet decided m ?l" by (rule quiet_paxos) (rule P.lead_decided)
  moreover have "quiet decided ?l (send_outgoing_messages E ?l)"
    by (rule send_outgoing_quiet) (use inv in \<open>simp add: node_inv_def\<close>)
  ultimately have "quiet decided m n" by (auto simp: n intro: quiet_trans)
  with inv show ?thesis by (rule node_inv_quiet)
qed

text \<open>A node that has just started has handed nothing on.\<close>

lemma start_handed:
  assumes "node_start E line = Inr n"
  shows "handed_on E proposed n = {}"
proof -
  obtain nid nids src v m where new: "node_new E nid nids [Init_Ok nid src v] = Inr m"
    and n: "n = (if nid = ''n0''
                 then send_outgoing_messages E
                        (m\<lparr>omnipaxos := op_try_become_leader (ne_paxos E) (omnipaxos m)\<rparr>)
                 else m)"
    using assms by (auto simp: node_start_def Let_def split: sum.splits)
  from new have "handed_on E proposed m = {}"
    by (auto simp: node_new_def handed_on_def forwarded_cmds_def dest!: P.build_proposed
        split: sum.splits)
  then show ?thesis
    by (simp add: n send_outgoing_handed) (simp add: handed_on_def P.lead_proposed)
qed

end

section \<open>A concrete environment\<close>

text \<open>
  The interface \<open>node_libs\<close> instantiated: JSON values as data, the leader-based log, and codecs by
  enumeration. The argument says which message each line of input is.
\<close>

instance kv_op :: (countable) countable
  by countable_datatype

instance maelstrom_command_ext :: (countable, countable) countable
proof (rule countable_classI
    [of "\<lambda>c. to_nat (coordinator c, client_src c, msg_id c, op c, maelstrom_command.more c)"])
  fix c d :: "('a, 'b) maelstrom_command_ext"
  assume "to_nat (coordinator c, client_src c, msg_id c, op c, maelstrom_command.more c) =
          to_nat (coordinator d, client_src d, msg_id d, op d, maelstrom_command.more d)"
  then show "c = d" by (simp add: maelstrom_command.equality)
qed

definition log_env ::
    "(string \<Rightarrow> json_value option)
       \<Rightarrow> (json_value, json_value maelstrom_command leader_log,
           op_node_id \<times> json_value maelstrom_command list, unit) node_env" where
  "log_env lines =
     \<lparr>ne_json = value_json\<lparr>j_from_str := lines\<rparr>, ne_paxos = leader_paxos,
      ne_cmd = count_codec, ne_msg = count_codec\<rparr>"

abbreviation log_proposed :: "'c leader_log \<Rightarrow> 'c set" where
  "log_proposed s \<equiv> set (ll_proposed s)"

lemma log_env_libs: "node_libs (log_env lines) ll_log log_proposed"
  unfolding node_libs_def log_env_def
  by (simp add: value_json_lines cc.codec_lib_axioms lp.omnipaxos_lib_axioms)

interpretation le: node_libs "log_env lines" ll_log log_proposed for lines
  by (rule log_env_libs)

section \<open>Properties\<close>

text \<open>
  C7. A node is a correct replica from its first message on: whatever lines and ticks it has handled
  since it started, its store is the replay of the decided entries it has applied, and the replies
  it has written are, in order, those the sequential key-value store gives on these entries to the
  operations the node coordinates: each answered once, none twice, none out of order.
\<close>

theorem node_serves_log:
  assumes "node_libs E decided proposed" "node_main E queue evs = Inr n'"
  shows "decided_idx n' \<le> length (decided (omnipaxos n')) \<and>
         kv_store n' = replay (take (decided_idx n') (decided (omnipaxos n'))) \<and>
         filter is_reply (stdout n') =
           snd (run_log (replica_spec (node_id n')) Map.empty
                  (take (decided_idx n') (decided (omnipaxos n'))))"
proof -
  obtain line n where "node_start E line = Inr n" "node_run E n evs = Inr n'"
    using assms(2) by (auto simp: node_main_def bind_res_eq_Inr)
  with node_libs.run_inv [OF assms(1) node_libs.start_inv [OF assms(1)]] show ?thesis
    by (simp add: node_inv_def)
qed

text \<open>The input of a node that is started alone, writes a value and reads it back.\<close>

definition solo_msg :: "(string \<times> json_value) list \<Rightarrow> json_value" where
  "solo_msg body =
     JObj [(''src'', JStr ''c1''), (''dest'', JStr ''n0''), (''body'', JObj body)]"

definition solo_lines :: "string \<Rightarrow> json_value option" where
  "solo_lines line =
     (if line = ''i'' then Some (solo_msg
        [(''type'', JStr ''init''), (''msg_id'', JNum 0), (''node_id'', JStr ''n0''),
         (''node_ids'', JArr [JStr ''n0''])])
      else if line = ''w'' then Some (solo_msg
        [(''type'', JStr ''write''), (''msg_id'', JNum 1), (''key'', JStr ''x''), (''value'', JNum 7)])
      else if line = ''r'' then Some (solo_msg
        [(''type'', JStr ''read''), (''msg_id'', JNum 2), (''key'', JStr ''x'')])
      else if line = ''b'' then Some (solo_msg [(''type'', JStr ''read'')])
      else None)"

abbreviation "solo_env \<equiv> log_env solo_lines"

definition solo_state ::
    "json_value maelstrom_command list \<Rightarrow> json_value kv_data \<Rightarrow> json_value out_msg list
       \<Rightarrow> (json_value, json_value maelstrom_command leader_log,
           op_node_id \<times> json_value maelstrom_command list) maelstrom_node" where
  "solo_state log kv out =
     \<lparr>node_id = ''n0'',
      omnipaxos = \<lparr>ll_pid = 1, ll_nodes = [1], ll_log = log, ll_proposed = log, ll_out = []\<rparr>,
      kv_store = kv, decided_idx = length log, msg_buffer = [],
      stdout = Init_Ok ''n0'' ''c1'' (JNum 0) # out, node_ids = [''n0''], pending_forwards = []\<rparr>"

definition solo_cmd :: "u64 \<Rightarrow> json_value kv_op \<Rightarrow> json_value maelstrom_command" where
  "solo_cmd i q = \<lparr>coordinator = ''n0'', client_src = ''c1'', msg_id = i, op = q\<rparr>"

abbreviation "solo_log \<equiv> [solo_cmd 1 (Write ''x'' (JNum 7)), solo_cmd 2 (Read ''x'')]"

lemma n0_id [simp]: "maelstrom_to_op_id ''n0'' = Inr 1"
proof -
  have "show_u64 0 = ''0''"
    by (simp add: show_u64_def show_nat.simps digit_char_def char_of_def bit_numeral_rec bit_0)
  with maelstrom_to_op_id_show [of 0] show ?thesis by simp
qed

lemmas node_unfold =
  node_start_def node_new_def on_line_def on_tick_def dispatch_def handle_client_request_def
  handle_forwarded_request_def handle_omnipaxos_message_def try_append_def
  send_outgoing_messages_def process_decided_entries_def apply_and_respond_def send_error_def
  send_msg_def Let_def

lemmas solo_unfold =
  log_env_def value_json_def leader_paxos_def ll_append_def solo_lines_def solo_msg_def
  solo_state_def solo_cmd_def node_unfold

lemma solo_start: "node_start solo_env ''i'' = Inr (solo_state [] Map.empty [])"
  by (simp add: solo_unfold)

lemma solo_run:
  "node_run solo_env (solo_state [] Map.empty []) [Line ''w'', Line ''r''] =
     Inr (solo_state solo_log (Map.empty(''x'' \<mapsto> JNum 7))
            [Write_Ok ''n0'' ''c1'' 1, Read_Ok ''n0'' ''c1'' 2 (JNum 7)])"
  by (simp add: node_run_def solo_unfold)

lemma solo_main:
  "node_main solo_env [''i''] [Line ''w'', Line ''r''] =
     Inr (solo_state solo_log (Map.empty(''x'' \<mapsto> JNum 7))
            [Write_Ok ''n0'' ''c1'' 1, Read_Ok ''n0'' ''c1'' 2 (JNum 7)])"
  by (simp add: node_main_def solo_start solo_run)

theorem node_serves_log_witness: "replay solo_log = [''x'' \<mapsto> JNum 7]"
  using node_serves_log [OF log_env_libs solo_main]
  by (simp add: solo_state_def del: run_log.simps)

text \<open>
  C17. While the standard output takes what is written, a tick never panics, and after it nothing that is
  decided is left unapplied.
\<close>

theorem tick_catches_up:
  assumes "node_libs E decided proposed" "node_inv decided n"
  shows "\<exists>n'. on_tick E n = Inr n' \<and> decided_idx n' = length (decided (omnipaxos n')) \<and>
           kv_store n' = replay (decided (omnipaxos n'))"
  using node_libs.on_tick_inv [OF assms] by (metis node_inv_def order_refl take_all)

lemma solo_inv: "node_inv ll_log (solo_state [] Map.empty [])"
  by (rule le.start_inv [OF solo_start])

theorem tick_catches_up_witness:
  "\<exists>n'. on_tick solo_env (solo_state [] Map.empty []) = Inr n' \<and>
     decided_idx n' = length (ll_log (omnipaxos n')) \<and> kv_store n' = replay (ll_log (omnipaxos n'))"
  by (rule tick_catches_up [OF log_env_libs solo_inv])

text \<open>
  C18. The only inputs that bring a node down: a client operation without a string \<open>src\<close> or an
  unsigned \<open>msg_id\<close>, and a consensus or forward message whose \<open>data\<close> does not decode. Every other
  line, malformed JSON and unknown types included, is survived, while the standard output takes what is
  written.
\<close>

theorem line_panics_iff:
  assumes "node_libs E decided proposed" "node_inv decided n"
  shows "(\<exists>p. on_line E n line = Inl p) \<longleftrightarrow>
    (\<exists>msg. j_from_str (ne_json E) line = Some msg \<and>
      (let J = ne_json E; ty = msg_type_of J msg; body = j_index J msg ''body'';
           dat = j_as_str J (j_index J body ''data'')
       in (ty \<in> {''read'', ''write'', ''cas''} \<and>
             (j_as_str J (j_index J msg ''src'') = None \<or> j_as_u64 J (j_index J body ''msg_id'') = None))
        \<or> (ty = ''omnipaxos'' \<and> Option.bind dat (dec (ne_msg E)) = None)
        \<or> (ty = ''forward'' \<and> Option.bind dat (dec (ne_cmd E)) = None)))"
proof (cases "j_from_str (ne_json E) line")
  case None
  then show ?thesis by (simp add: on_line_def)
next
  case (Some msg)
  have "(\<exists>p. on_line E n line = Inl p) \<longleftrightarrow> (\<exists>p. dispatch E n msg = Inl p)"
  proof (cases "dispatch E n msg")
    case (Inl p)
    with Some show ?thesis by (simp add: on_line_def)
  next
    case (Inr m)
    from node_libs.on_line_inv [OF assms Inr Some] Inr show ?thesis by (metis sum.simps(4))
  qed
  with Some show ?thesis
    by (auto simp: dispatch_def handle_client_request_def handle_omnipaxos_message_def
        handle_forwarded_request_def msg_type_of_def Let_def expect_def
        split: option.splits bind_splits sum.splits if_splits)
qed

theorem line_panics_iff_witness:
  "\<exists>p. on_line solo_env (solo_state [] Map.empty []) ''b'' = Inl p"
  by (subst line_panics_iff [OF log_env_libs solo_inv])
    (simp add: log_env_def value_json_def solo_lines_def solo_msg_def msg_type_of_def)

text \<open>
  C19. What a node writes, any node reads: a forward delivers exactly the command that was
  forwarded, a consensus message exactly the message that was sent, and the answers meant for
  clients change nothing.
\<close>

theorem written_messages_read_back:
  assumes "node_libs E decided proposed"
  shows "dispatch E n (out_json (ne_json E) (Forward_Msg a b (enc (ne_cmd E) c))) =
           Inr (try_append E n c) \<and>
         dispatch E n (out_json (ne_json E) (Omnipaxos_Msg a b (enc (ne_msg E) m))) =
           Inr (n\<lparr>omnipaxos := op_handle_incoming (ne_paxos E) m (omnipaxos n)\<rparr>) \<and>
         (is_reply r \<longrightarrow> dispatch E n (out_json (ne_json E) r) = Inr n)"
  using node_libs.read_forward [OF assms] node_libs.read_omnipaxos [OF assms]
    node_libs.read_reply [OF assms] by blast

theorem written_messages_read_back_witness:
  "dispatch solo_env (solo_state [] Map.empty [])
     (out_json value_json (Forward_Msg ''n1'' ''n0'' (enc count_codec (solo_cmd 1 (Read ''x''))))) =
   Inr (try_append solo_env (solo_state [] Map.empty []) (solo_cmd 1 (Read ''x''))) \<and>
   dispatch solo_env (solo_state [] Map.empty []) (out_json value_json (Write_Ok ''n1'' ''c1'' 1)) =
     Inr (solo_state [] Map.empty [])"
  using written_messages_read_back [OF log_env_libs, of solo_lines "solo_state [] Map.empty []"
      "''n1''" "''n0''" "solo_cmd 1 (Read ''x'')" _ "Write_Ok ''n1'' ''c1'' 1"]
  by (simp add: log_env_def value_json_def envelope_def)

text \<open>
  A command handed to a node is never dropped and taken up in one way only: the consensus
  instance accepts it, or it is forwarded to a leader other than the node itself, or it waits for
  the next tick.
\<close>

lemma try_append_disposition:
  "let ok = fst (op_append (ne_paxos E) c (omnipaxos n)); n' = try_append E n c
   in (ok \<and> stdout n' = stdout n \<and> pending_forwards n' = pending_forwards n) \<or>
      (\<not> ok \<and> stdout n' = stdout n \<and> pending_forwards n' = pending_forwards n @ [c]) \<or>
      (\<not> ok \<and> pending_forwards n' = pending_forwards n \<and>
        (\<exists>leader. leader \<noteq> node_id n \<and>
           stdout n' = stdout n @ [Forward_Msg (node_id n) leader (enc (ne_cmd E) c)]))"
  by (auto simp: try_append_def Let_def case_prod_beta split: option.split)


end
