(* ===== verification/Linearizability.thy ===== *)
theory Linearizability
  imports Prelude
begin

text \<open>
  Linearizability of a finite history of timed operations against a sequential object, and its
  locality: when operations touch one key each, a history is linearizable as a whole exactly when its
  part on every key is. This is the specification of the checker of
  \<open>src/bin/jepsen_harness.rs\<close> and the reason its per-key search suffices.
\<close>

section \<open>Specification\<close>

text \<open>
  An object steps on an operation and says whether the operation's recorded result fits. A sequence
  is legal when every operation fits in turn.
\<close>

fun legal :: "('m \<Rightarrow> 'op \<Rightarrow> 'm \<times> bool) \<Rightarrow> 'm \<Rightarrow> 'op list \<Rightarrow> bool" where
  "legal obj m [] = True"
| "legal obj m (x # xs) = (snd (obj m x) \<and> legal obj (fst (obj m x)) xs)"

text \<open>
  A sequence respects real time when no operation is placed before one that had completed before it
  was invoked.
\<close>

fun rt_ordered :: "('op \<Rightarrow> nat) \<Rightarrow> ('op \<Rightarrow> nat) \<Rightarrow> 'op list \<Rightarrow> bool" where
  "rt_ordered ivk cmp [] = True"
| "rt_ordered ivk cmp (x # xs) =
     ((\<forall>y\<in>set (x # xs). ivk x \<le> cmp y) \<and> rt_ordered ivk cmp xs)"

definition linearizable ::
    "('m \<Rightarrow> 'op \<Rightarrow> 'm \<times> bool) \<Rightarrow> ('op \<Rightarrow> nat) \<Rightarrow> ('op \<Rightarrow> nat) \<Rightarrow> 'm \<Rightarrow> 'op list \<Rightarrow> bool" where
  "linearizable obj ivk cmp m ops \<longleftrightarrow>
     (\<exists>xs. mset xs = mset ops \<and> rt_ordered ivk cmp xs \<and> legal obj m xs)"

section \<open>Basic facts\<close>

lemma linearizable_Nil [simp]: "linearizable obj ivk cmp m []"
  by (simp add: linearizable_def)

lemma linearizable_mset:
  "mset xs = mset ys \<Longrightarrow> linearizable obj ivk cmp m xs = linearizable obj ivk cmp m ys"
  by (simp add: linearizable_def)

lemma rt_orderedI:
  assumes "\<And>i j. i \<le> j \<Longrightarrow> j < length xs \<Longrightarrow> ivk (xs ! i) \<le> cmp (xs ! j)"
  shows "rt_ordered ivk cmp xs"
  using assms
proof (induction xs)
  case (Cons x xs)
  have "ivk x \<le> cmp y" if "y \<in> set (x # xs)" for y
    using that Cons.prems [of 0] by (metis in_set_conv_nth le0 nth_Cons_0)
  moreover have "rt_ordered ivk cmp xs" using Cons.prems [of "Suc _" "Suc _"] by (intro Cons.IH) simp
  ultimately show ?case by simp
qed simp

lemma rt_ordered_filter: "rt_ordered ivk cmp xs \<Longrightarrow> rt_ordered ivk cmp (filter P xs)"
  by (induction xs) auto

text \<open>The first operation of a linearization can be any that fits and that nothing left precedes.\<close>

lemma linearizable_step:
  assumes "ops \<noteq> []"
  shows "linearizable obj ivk cmp m ops \<longleftrightarrow>
    (\<exists>i<length ops. (\<forall>y\<in>set ops. ivk (ops ! i) \<le> cmp y) \<and> snd (obj m (ops ! i)) \<and>
       linearizable obj ivk cmp (fst (obj m (ops ! i))) (remove_at i ops))"
    (is "?L \<longleftrightarrow> (\<exists>i<length ops. ?R i)")
proof
  assume ?L
  then obtain xs where xs: "mset xs = mset ops" "rt_ordered ivk cmp xs" "legal obj m xs"
    by (auto simp: linearizable_def)
  with assms obtain x ys where x: "xs = x # ys" by (cases xs) auto
  with xs(1) have "x \<in> set ops" by (metis list.set_intros(1) mset_eq_setD)
  then obtain i where i: "i < length ops" "ops ! i = x" by (auto simp: in_set_conv_nth)
  have "mset ys = mset (remove_at i ops)"
    using mset_remove_at [OF i(1)] xs(1) i(2) x by (metis add_mset_add_single add_right_cancel mset.simps(2))
  moreover have "set xs = set ops" using xs(1) by (rule mset_eq_setD)
  ultimately have "?R i" using xs x i(2) by (auto simp: linearizable_def)
  with i(1) show "\<exists>i<length ops. ?R i" by blast
next
  assume "\<exists>i<length ops. ?R i"
  then obtain i ys where i: "i < length ops" "\<forall>y\<in>set ops. ivk (ops ! i) \<le> cmp y"
    "snd (obj m (ops ! i))" and ys: "mset ys = mset (remove_at i ops)" "rt_ordered ivk cmp ys"
    "legal obj (fst (obj m (ops ! i))) ys"
    by (auto simp: linearizable_def)
  have m: "mset (ops ! i # ys) = mset ops" using mset_remove_at [OF i(1)] ys(1) by simp
  from mset_eq_setD [OF m] i ys have "rt_ordered ivk cmp (ops ! i # ys)" "legal obj m (ops ! i # ys)"
    by auto
  with m show ?L unfolding linearizable_def by blast
qed

section \<open>Linearization points\<close>

text \<open>
  Along a sequence that respects real time, the latest invocation so far is a point in time that lies
  within the operation's interval, and the points never decrease.
\<close>

fun points :: "('op \<Rightarrow> nat) \<Rightarrow> nat \<Rightarrow> 'op list \<Rightarrow> (nat \<times> 'op) list" where
  "points ivk a [] = []"
| "points ivk a (x # xs) = (max a (ivk x), x) # points ivk (max a (ivk x)) xs"

lemma map_snd_points [simp]: "map snd (points ivk a xs) = xs"
  by (induction xs arbitrary: a) simp_all

lemma points_lower: "(p, x) \<in> set (points ivk a xs) \<Longrightarrow> a \<le> p \<and> ivk x \<le> p"
  by (induction xs arbitrary: a) fastforce+

lemma sorted_points: "sorted (map fst (points ivk a xs))"
  by (induction xs arbitrary: a) (auto dest: points_lower)

lemma points_upper:
  assumes "rt_ordered ivk cmp xs" "\<forall>y\<in>set xs. a \<le> cmp y" "(p, x) \<in> set (points ivk a xs)"
  shows "p \<le> cmp x"
  using assms
proof (induction xs arbitrary: a)
  case Nil
  then show ?case by simp
next
  case (Cons z xs)
  then have m: "\<forall>y\<in>set xs. max a (ivk z) \<le> cmp y" by simp
  have rt: "rt_ordered ivk cmp xs" using Cons.prems(1) by simp
  show ?case
  proof (cases "(p, x) = (max a (ivk z), z)")
    case True
    with Cons.prems(1,2) show ?thesis by simp
  next
    case False
    with Cons.prems(3) have "(p, x) \<in> set (points ivk (max a (ivk z)) xs)" by auto
    then show ?thesis by (rule Cons.IH [OF rt m])
  qed
qed

lemma rt_ordered_by_points:
  assumes "sorted (map fst ps)" "\<forall>(p, x)\<in>set ps. ivk x \<le> p \<and> p \<le> cmp x"
  shows "rt_ordered ivk cmp (map snd ps)"
  using assms by (induction ps) (auto 4 4)

section \<open>Objects whose operations touch one key\<close>

locale keyed_object =
  fixes obj :: "'m \<Rightarrow> 'op \<Rightarrow> 'm \<times> bool"
    and key :: "'op \<Rightarrow> 'k"
    and look :: "'m \<Rightarrow> 'k \<Rightarrow> 'v"
  assumes fits_local: "look m (key x) = look m' (key x) \<Longrightarrow> snd (obj m x) = snd (obj m' x)"
    and step_local: "look m (key x) = look m' (key x) \<Longrightarrow>
          look (fst (obj m x)) (key x) = look (fst (obj m' x)) (key x)"
    and step_other: "k \<noteq> key x \<Longrightarrow> look (fst (obj m x)) k = look m k"
begin

lemma legal_one_key:
  assumes "\<forall>x\<in>set xs. key x = k" "look m k = look m' k"
  shows "legal obj m xs = legal obj m' xs"
  using assms
proof (induction xs arbitrary: m m')
  case Nil
  then show ?case by simp
next
  case (Cons x xs)
  then have k: "key x = k" by simp
  have "look (fst (obj m x)) k = look (fst (obj m' x)) k"
    using step_local [of m x m'] Cons.prems(2) k by simp
  then have "legal obj (fst (obj m x)) xs = legal obj (fst (obj m' x)) xs"
    by (intro Cons.IH) (use Cons.prems in simp_all)
  moreover have "snd (obj m x) = snd (obj m' x)"
    using fits_local [of m x m'] Cons.prems(2) k by simp
  ultimately show ?case by simp
qed

text \<open>A sequence is legal exactly when its part on each key is.\<close>

lemma legal_by_key: "legal obj m xs \<longleftrightarrow> (\<forall>k. legal obj m (filter (\<lambda>x. key x = k) xs))"
proof (induction xs arbitrary: m)
  case Nil
  then show ?case by simp
next
  case (Cons x xs)
  let ?m' = "fst (obj m x)"
  have other: "legal obj ?m' (filter (\<lambda>y. key y = k) xs) = legal obj m (filter (\<lambda>y. key y = k) xs)"
    if "k \<noteq> key x" for k
    by (rule legal_one_key [of _ k]) (auto simp: step_other [OF that])
  have "legal obj m (x # xs) \<longleftrightarrow>
      snd (obj m x) \<and> (\<forall>k. legal obj ?m' (filter (\<lambda>y. key y = k) xs))"
    using Cons.IH by simp
  also have "\<dots> \<longleftrightarrow> (\<forall>k. legal obj m (filter (\<lambda>y. key y = k) (x # xs)))"
    (is "_ \<longleftrightarrow> (\<forall>k. ?P k)")
  proof -
    have "?P k \<longleftrightarrow> (if k = key x then snd (obj m x) else True) \<and>
        legal obj ?m' (filter (\<lambda>y. key y = k) xs)" for k
      using other [of k] by (cases "k = key x") simp_all
    then show ?thesis by auto
  qed
  finally show ?case .
qed

text \<open>One key of a linearizable history is linearizable.\<close>

lemma linearizable_key:
  assumes "linearizable obj ivk cmp m ops"
  shows "linearizable obj ivk cmp m (filter (\<lambda>x. key x = k) ops)"
proof -
  from assms obtain xs where "mset xs = mset ops" "rt_ordered ivk cmp xs" "legal obj m xs"
    by (auto simp: linearizable_def)
  moreover from this have "legal obj m (filter (\<lambda>x. key x = k) xs)"
    using legal_by_key by blast
  ultimately have "mset (filter (\<lambda>x. key x = k) xs) = mset (filter (\<lambda>x. key x = k) ops) \<and>
      rt_ordered ivk cmp (filter (\<lambda>x. key x = k) xs) \<and> legal obj m (filter (\<lambda>x. key x = k) xs)"
    by (simp add: rt_ordered_filter)
  then show ?thesis unfolding linearizable_def by blast
qed

text \<open>
  Conversely, merging linearizations of the keys by their linearization points gives one of the whole
  history.
\<close>

lemma merge_points:
  assumes "distinct ks" "\<forall>k\<in>set ks. \<forall>x\<in>set (lin k). key x = k"
  shows "filter (\<lambda>px. key (snd px) = k) (concat (map (\<lambda>k. points ivk 0 (lin k)) ks)) =
         (if k \<in> set ks then points ivk 0 (lin k) else [])"
  using assms
proof (induction ks)
  case Nil
  then show ?case by simp
next
  case (Cons l ks)
  have "key (snd px) = l" if "px \<in> set (points ivk 0 (lin l))" for px
    using that Cons.prems(2) by (metis image_eqI list.set_intros(1) list.set_map map_snd_points)
  then have "filter (\<lambda>px. key (snd px) = k) (points ivk 0 (lin l)) =
      (if k = l then points ivk 0 (lin l) else [])"
    by (auto simp: filter_id_conv filter_empty_conv)
  with Cons show ?case by auto
qed

lemma linearizable_merge:
  assumes keys: "\<And>k. linearizable obj ivk cmp m (filter (\<lambda>x. key x = k) ops)"
  shows "linearizable obj ivk cmp m ops"
proof -
  from keys obtain lin where lin: "\<And>k. mset (lin k) = mset (filter (\<lambda>x. key x = k) ops)"
      "\<And>k. rt_ordered ivk cmp (lin k)" "\<And>k. legal obj m (lin k)"
    unfolding linearizable_def by metis
  have lin_key: "x \<in> set (lin k) \<Longrightarrow> key x = k" for x k
    using mset_eq_setD [OF lin(1) [of k]] by auto
  define ks where "ks = remdups (map key ops)"
  define ps where "ps = sort_key fst (concat (map (\<lambda>k. points ivk 0 (lin k)) ks))"
  have proj: "filter (\<lambda>px. key (snd px) = k) ps = points ivk 0 (lin k)" for k
  proof -
    have "lin k = []" if "k \<notin> set ks"
    proof -
      have "filter (\<lambda>x. key x = k) ops = []" using that by (auto simp: ks_def filter_empty_conv)
      with lin(1) [of k] show ?thesis by simp
    qed
    then show ?thesis
      using merge_points [of ks lin k ivk] lin_key
      by (simp add: ps_def filter_sort sort_key_id_if_sorted sorted_points ks_def)
  qed
  have by_key: "filter (\<lambda>x. key x = k) (map snd ps) = lin k" for k
    using arg_cong [OF proj [of k], where f = "map snd"]
    by (simp add: filter_map comp_def)
  have "count (mset (map snd ps)) x = count (mset ops) x" for x
  proof -
    have "count (mset zs) x = count (mset (filter (\<lambda>y. key y = key x) zs)) x" for zs
      by (induction zs) auto
    then show ?thesis using by_key [of "key x"] lin(1) [of "key x"] by metis
  qed
  then have "mset (map snd ps) = mset ops" by (simp add: multiset_eq_iff)
  moreover have "rt_ordered ivk cmp (map snd ps)"
  proof (rule rt_ordered_by_points)
    show "sorted (map fst ps)" by (simp add: ps_def)
    show "\<forall>(p, x)\<in>set ps. ivk x \<le> p \<and> p \<le> cmp x"
      using points_lower points_upper [OF lin(2), of _ 0] by (fastforce simp: ps_def)
  qed
  moreover have "legal obj m (map snd ps)"
    using legal_by_key [of m "map snd ps"] by_key lin(3) by simp
  ultimately show ?thesis unfolding linearizable_def by blast
qed

theorem locality:
  "linearizable obj ivk cmp m ops \<longleftrightarrow>
     (\<forall>k. linearizable obj ivk cmp m (filter (\<lambda>x. key x = k) ops))"
  using linearizable_key linearizable_merge by blast

end

end
