(* ===== verification/Run_History.thy ===== *)
theory Run_History
  imports Linearizability
begin

text \<open>
  The history clients observe of a replicated log. Both programs of the repository order client
  operations by the position of their entry in one decided log. The history of a run is taken from
  what goes in and what comes out: an operation is called by the first event that brings its request,
  and it returns, with the result read from the answer, when the first answer to the request has been
  written. The locale \<open>log_run\<close> states the law that makes such a history linearizable.
\<close>

section \<open>The first moment\<close>

text \<open>The first time below \<open>n\<close> at which something holds, or \<open>n\<close>.\<close>

definition first_time :: "(nat \<Rightarrow> bool) \<Rightarrow> nat \<Rightarrow> nat" where
  "first_time P n = (case find P [0..<n] of Some t \<Rightarrow> t | None \<Rightarrow> n)"

lemma first_time_bound: "first_time P n \<le> n"
  by (auto simp: first_time_def find_Some_iff split: option.split)

lemma first_time_le:
  assumes "t < n" "P t"
  shows "first_time P n \<le> t"
proof (cases "find P [0..<n]")
  case None
  with assms show ?thesis by (auto simp: find_None_iff)
next
  case (Some u)
  then have "\<forall>j<u. \<not> P j" by (auto simp: find_Some_iff)
  with assms(2) have "u \<le> t" by (meson not_le)
  with Some show ?thesis by (simp add: first_time_def)
qed

lemma first_time_cases:
  obtains "first_time P n = n" | "first_time P n < n" "P (first_time P n)"
proof (cases "find P [0..<n]")
  case None
  then show thesis by (intro that(1)) (simp add: first_time_def)
next
  case (Some t)
  then have "t < n" "P t"
    unfolding find_Some_iff by (metis add.left_neutral diff_zero length_upt nth_upt)+
  with Some show thesis by (intro that(2)) (simp_all add: first_time_def)
qed

section \<open>Running a sequential object on a log\<close>

text \<open>
  A sequential object \<open>step\<close> runs on the operations \<open>opn c\<close> of the log's entries \<open>c\<close>; its state after a
  log, and the result of the entry at a position.
\<close>

definition log_state :: "('s \<Rightarrow> 'q \<Rightarrow> 's \<times> 'r) \<Rightarrow> ('c \<Rightarrow> 'q) \<Rightarrow> 's \<Rightarrow> 'c list \<Rightarrow> 's" where
  "log_state step opn s log = foldl (\<lambda>s c. fst (step s (opn c))) s log"

definition result_at :: "('s \<Rightarrow> 'q \<Rightarrow> 's \<times> 'r) \<Rightarrow> ('c \<Rightarrow> 'q) \<Rightarrow> 's \<Rightarrow> 'c list \<Rightarrow> nat \<Rightarrow> 'r" where
  "result_at step opn s log p = snd (step (log_state step opn s (take p log)) (opn (log ! p)))"

lemma log_state_snoc [simp]:
  "log_state step opn s (log @ [c]) = fst (step (log_state step opn s log) (opn c))"
  by (simp add: log_state_def)

text \<open>Entries further up the log do not change the result of an entry.\<close>

lemma result_at_append: "p < length log \<Longrightarrow> result_at step opn s (log @ log') p = result_at step opn s log p"
  by (simp add: result_at_def nth_append)

lemma result_at_take: "p < n \<Longrightarrow> n \<le> length log \<Longrightarrow> result_at step opn s (take n log) p = result_at step opn s log p"
  using result_at_append [of p "take n log" step opn s "drop n log"] by simp

section \<open>Observed histories\<close>

text \<open>
  \<open>asks t\<close> are the requests event \<open>t\<close> brings, \<open>ans t c\<close> is the result its client has been given for the
  request \<open>c\<close> after \<open>t\<close> events, if any. Of a run of \<open>T\<close> events: its requests, when each was called and
  when it returned (\<open>Suc T\<close>: not within the run), and what it returned.
\<close>

definition run_requests :: "(nat \<Rightarrow> 'c list) \<Rightarrow> nat \<Rightarrow> 'c list" where
  "run_requests asks T = remdups (concat (map asks [0..<T]))"

definition call_time :: "(nat \<Rightarrow> 'c list) \<Rightarrow> nat \<Rightarrow> 'c \<Rightarrow> nat" where
  "call_time asks T c = first_time (\<lambda>t. c \<in> set (asks t)) T"

definition return_time :: "(nat \<Rightarrow> 'c \<Rightarrow> 'r option) \<Rightarrow> nat \<Rightarrow> 'c \<Rightarrow> nat" where
  "return_time ans T c = first_time (\<lambda>t. ans t c \<noteq> None) (Suc T)"

definition outcome :: "(nat \<Rightarrow> 'c \<Rightarrow> 'r option) \<Rightarrow> nat \<Rightarrow> 'c \<Rightarrow> 'r option" where
  "outcome ans T c = (if return_time ans T c \<le> T then ans (return_time ans T c) c else None)"

lemma in_run_requests: "c \<in> set (run_requests asks T) \<longleftrightarrow> (\<exists>t<T. c \<in> set (asks t))"
  by (auto simp: run_requests_def)

lemma call_time_le: "t < T \<Longrightarrow> c \<in> set (asks t) \<Longrightarrow> call_time asks T c \<le> t"
  unfolding call_time_def by (rule first_time_le)

lemma call_time_bound: "call_time asks T c \<le> T"
  unfolding call_time_def by (rule first_time_bound)

lemma return_time_le: "t \<le> T \<Longrightarrow> ans t c = Some r \<Longrightarrow> return_time ans T c \<le> t"
  unfolding return_time_def by (rule first_time_le) simp_all

lemma return_time_bound: "return_time ans T c \<le> Suc T"
  unfolding return_time_def by (rule first_time_bound)

lemma returned: "return_time ans T c \<le> T \<Longrightarrow> \<exists>r. ans (return_time ans T c) c = Some r"
  unfolding return_time_def
  by (cases rule: first_time_cases [of "\<lambda>t. ans t c \<noteq> None" "Suc T"]) auto

lemma outcome_SomeD: "outcome ans T c = Some r \<Longrightarrow> return_time ans T c \<le> T \<and> ans (return_time ans T c) c = Some r"
  by (simp add: outcome_def split: if_splits)

text \<open>Whatever has been answered by some moment has an outcome.\<close>

lemma outcome_of_answer: "t \<le> T \<Longrightarrow> ans t c = Some r \<Longrightarrow> outcome ans T c \<noteq> None"
  using return_time_le [of t T ans c r] returned [of ans T c] by (auto simp: outcome_def)

text \<open>
  A request as an operation of the sequential object: it moves the state, and what it returned, if it
  has returned, is the object's result. A run is linearizable when its requests, without some of those
  that have not returned, have a linearization.
\<close>

definition request_obj ::
    "('s \<Rightarrow> 'q \<Rightarrow> 's \<times> 'r) \<Rightarrow> ('c \<Rightarrow> 'q) \<Rightarrow> ('c \<Rightarrow> 'r option) \<Rightarrow> 's \<Rightarrow> 'c \<Rightarrow> 's \<times> bool" where
  "request_obj step opn out s c =
     (fst (step s (opn c)), case out c of None \<Rightarrow> True | Some r \<Rightarrow> r = snd (step s (opn c)))"

definition linearizable_run ::
    "('s \<Rightarrow> 'q \<Rightarrow> 's \<times> 'r) \<Rightarrow> ('c \<Rightarrow> 'q) \<Rightarrow> 's \<Rightarrow> (nat \<Rightarrow> 'c list) \<Rightarrow> (nat \<Rightarrow> 'c \<Rightarrow> 'r option) \<Rightarrow> nat
       \<Rightarrow> bool" where
  "linearizable_run step opn s asks ans T \<longleftrightarrow>
     (\<exists>cs. distinct cs \<and> set cs \<subseteq> set (run_requests asks T) \<and>
        (\<forall>c\<in>set (run_requests asks T). outcome ans T c \<noteq> None \<longrightarrow> c \<in> set cs) \<and>
        linearizable (request_obj step opn (outcome ans T)) (call_time asks T) (return_time ans T) s cs)"

text \<open>Run in log order, requests that returned their results of the log fit the sequential object.\<close>

lemma legal_results:
  assumes "\<And>p r. p < length log \<Longrightarrow> out (log ! p) = Some r \<Longrightarrow> r = result_at step opn s log p"
  shows "legal (request_obj step opn out) s log"
proof -
  have "legal (request_obj step opn out) (log_state step opn s (take p log)) (drop p log)"
    if "p \<le> length log" for p
    using that
  proof (induction "length log - p" arbitrary: p)
    case (Suc k)
    then have p: "p < length log" by simp
    moreover from this have "log_state step opn s (take (Suc p) log) =
        fst (step (log_state step opn s (take p log)) (opn (log ! p)))"
      by (simp add: take_Suc_conv_app_nth)
    moreover have "legal (request_obj step opn out) (log_state step opn s (take (Suc p) log)) (drop (Suc p) log)"
      using Suc by (intro Suc.hyps(1)) simp_all
    ultimately show ?case
      using assms [OF p] Cons_nth_drop_Suc [OF p, symmetric]
      by (simp add: request_obj_def result_at_def split: option.split)
  qed simp
  from this [of 0] show ?thesis by (simp add: log_state_def)
qed

section \<open>The interface of a run\<close>

text \<open>
  A run of \<open>T\<close> events over the log \<open>L\<close>. The laws: no command is decided twice, and whatever is answered
  stands in the log, was answered with its result of the sequential object on the log, and was asked
  for earlier, as was everything before it in the log.
\<close>

locale log_run =
  fixes step :: "'s \<Rightarrow> 'q \<Rightarrow> 's \<times> 'r"
    and opn :: "'c \<Rightarrow> 'q"
    and s0 :: 's
    and L :: "'c list"
    and asks :: "nat \<Rightarrow> 'c list"
    and ans :: "nat \<Rightarrow> 'c \<Rightarrow> 'r option"
    and T :: nat
  assumes once: "distinct L"
    and answered_from_log: "t \<le> T \<Longrightarrow> c \<in> set (run_requests asks T) \<Longrightarrow> ans t c = Some r \<Longrightarrow>
          \<exists>p<length L. L ! p = c \<and> r = result_at step opn s0 L p \<and> (\<forall>q\<le>p. \<exists>s<t. L ! q \<in> set (asks s))"
begin

text \<open>What has returned, by its position in the log.\<close>

lemma returned_position:
  assumes "p < length L" "L ! p \<in> set (run_requests asks T)" "return_time ans T (L ! p) \<le> T"
  shows "outcome ans T (L ! p) = Some (result_at step opn s0 L p)"
    and "q \<le> p \<Longrightarrow> \<exists>s<return_time ans T (L ! p). L ! q \<in> set (asks s)"
proof -
  obtain r where r: "ans (return_time ans T (L ! p)) (L ! p) = Some r" using returned [OF assms(3)] by blast
  from answered_from_log [OF assms(3,2) r] obtain p' where p': "p' < length L" "L ! p' = L ! p"
    "r = result_at step opn s0 L p'" "\<forall>q\<le>p'. \<exists>s<return_time ans T (L ! p). L ! q \<in> set (asks s)" by blast
  have "p' = p" using p'(1,2) assms(1) once by (simp add: nth_eq_iff_index_eq)
  with r p'(3,4) assms(3) show "outcome ans T (L ! p) = Some (result_at step opn s0 L p)"
    "q \<le> p \<Longrightarrow> \<exists>s<return_time ans T (L ! p). L ! q \<in> set (asks s)" by (simp_all add: outcome_def)
qed

text \<open>No request returns before one at its own position or further down the log is called.\<close>

lemma called_before_return:
  assumes "p \<le> q" "q < length L" "L ! q \<in> set (run_requests asks T)"
  shows "call_time asks T (L ! p) \<le> return_time ans T (L ! q)"
proof (cases "return_time ans T (L ! q) \<le> T")
  case True
  from returned_position(2) [OF assms(2,3) True assms(1)] obtain s where
    "s < return_time ans T (L ! q)" "L ! p \<in> set (asks s)" by blast
  with True call_time_le [of s T "L ! p" asks] show ?thesis by simp
next
  case False
  with call_time_bound [of asks T "L ! p"] show ?thesis by simp
qed

text \<open>A part of the log up to its last returned request is a linearization.\<close>

lemma linearization:
  assumes "n \<le> length L" "set (take n L) \<subseteq> set (run_requests asks T)"
  shows "linearizable (request_obj step opn (outcome ans T)) (call_time asks T) (return_time ans T) s0 (take n L)"
proof -
  have at: "L ! p \<in> set (run_requests asks T)" if "p < n" for p
    using that assms by (metis in_mono le_trans length_take less_le_trans min.absorb2 nth_mem nth_take)
  have "rt_ordered (call_time asks T) (return_time ans T) (take n L)"
    by (rule rt_orderedI) (use called_before_return at assms(1) in auto)
  moreover have "legal (request_obj step opn (outcome ans T)) s0 (take n L)"
  proof (rule legal_results)
    fix p r
    assume p: "p < length (take n L)" and r: "outcome ans T (take n L ! p) = Some r"
    then have "p < length L" "L ! p \<in> set (run_requests asks T)" "return_time ans T (L ! p) \<le> T"
      using at outcome_SomeD [of ans T "L ! p" r] by simp_all
    from returned_position(1) [OF this] p r assms(1) show "r = result_at step opn s0 (take n L) p"
      by (simp add: result_at_take)
  qed
  ultimately show ?thesis unfolding linearizable_def by blast
qed

lemma run_linearizable: "linearizable_run step opn s0 asks ans T"
proof -
  define A where "A = {p. p < length L \<and> L ! p \<in> set (run_requests asks T) \<and> return_time ans T (L ! p) \<le> T}"
  define n where "n = (if A = {} then 0 else Suc (Max A))"
  have fin: "finite A" by (simp add: A_def)
  have last: "n - 1 \<in> A" if "n \<noteq> 0" using that Max_in [OF fin] by (simp add: n_def split: if_splits)
  then have len: "n \<le> length L" by (cases "n = 0") (auto simp: A_def)
  have sub: "set (take n L) \<subseteq> set (run_requests asks T)"
  proof
    fix c
    assume "c \<in> set (take n L)"
    then obtain q where q: "q < n" "c = L ! q" using len by (auto simp: in_set_conv_nth)
    then have "n - 1 \<in> A" "q \<le> n - 1" using last by simp_all
    with returned_position(2) [of "n - 1" q] q obtain s where
      "s < return_time ans T (L ! (n - 1))" "c \<in> set (asks s)" by (auto simp: A_def)
    with \<open>n - 1 \<in> A\<close> show "c \<in> set (run_requests asks T)" by (auto simp: in_run_requests A_def intro: less_le_trans)
  qed
  have "c \<in> set (take n L)" if c: "c \<in> set (run_requests asks T)" "outcome ans T c \<noteq> None" for c
  proof -
    from c(2) obtain r where "return_time ans T c \<le> T" "ans (return_time ans T c) c = Some r"
      using outcome_SomeD by fastforce
    with answered_from_log [OF _ c(1)] obtain p where "p < length L" "L ! p = c" by blast
    with c(1) \<open>return_time ans T c \<le> T\<close> have "p \<in> A" by (simp add: A_def)
    then have "p < n" using Max_ge [OF fin] by (auto simp: n_def less_Suc_eq_le)
    with \<open>L ! p = c\<close> len show ?thesis by (auto simp: in_set_conv_nth)
  qed
  with linearization [OF len sub] sub once show ?thesis
    unfolding linearizable_run_def by (intro exI [of _ "take n L"]) simp
qed

end

end
