(* ===== verification/Interleaved_Runs.thy ===== *)
theory Interleaved_Runs
  imports Prelude
begin

text \<open>
  Processes running side by side, the shape of both clusters of the repository. A run interleaves the
  events of the processes in any order; what the events carry is up to the environment, so lost,
  delayed, reordered and repeated messages are all runs. A process that has panicked keeps its last
  state and takes no further step.
\<close>

record ('i, 'n) cluster =
  cl_nodes :: "'i \<rightharpoonup> 'n"
  cl_crashed :: "'i list"

fun cluster_step :: "('n \<Rightarrow> 'e \<Rightarrow> 'n res) \<Rightarrow> ('i, 'n) cluster \<Rightarrow> 'i \<times> 'e \<Rightarrow> ('i, 'n) cluster" where
  "cluster_step step c (i, ev) =
     (case cl_nodes c i of
        None \<Rightarrow> c
      | Some n \<Rightarrow>
          if i \<in> set (cl_crashed c) then c
          else (case step n ev of
                  Inl _ \<Rightarrow> c\<lparr>cl_crashed := i # cl_crashed c\<rparr>
                | Inr n' \<Rightarrow> c\<lparr>cl_nodes := (cl_nodes c)(i \<mapsto> n')\<rparr>))"

text \<open>The state after the first \<open>t\<close> events.\<close>

definition cluster_at ::
    "('n \<Rightarrow> 'e \<Rightarrow> 'n res) \<Rightarrow> ('i, 'n) cluster \<Rightarrow> ('i \<times> 'e) list \<Rightarrow> nat \<Rightarrow> ('i, 'n) cluster" where
  "cluster_at step c evs t = foldl (cluster_step step) c (take t evs)"

lemma cluster_at_0 [simp]: "cluster_at step c evs 0 = c"
  by (simp add: cluster_at_def)

lemma cluster_at_Suc:
  "t < length evs \<Longrightarrow> cluster_at step c evs (Suc t) = cluster_step step (cluster_at step c evs t) (evs ! t)"
  by (simp add: cluster_at_def take_Suc_conv_app_nth)

lemma cluster_step_node:
  assumes "cl_nodes (cluster_step step c (j, ev)) i = Some n'"
  shows "cl_nodes c i = Some n' \<or>
         (i = j \<and> (\<exists>n. cl_nodes c i = Some n \<and> step n ev = Inr n'))"
proof (cases "cl_nodes c j")
  case None
  with assms show ?thesis by simp
next
  case (Some n)
  with assms show ?thesis
    by (cases "j \<in> set (cl_crashed c)"; cases "step n ev"; cases "i = j") simp_all
qed

text \<open>How a process's state at one time comes from its state one event earlier.\<close>

lemma node_at_Suc:
  assumes "t < length evs" "cl_nodes (cluster_at step c evs (Suc t)) i = Some n'"
  obtains n where "cl_nodes (cluster_at step c evs t) i = Some n" "n' = n"
  | n ev where "cl_nodes (cluster_at step c evs t) i = Some n" "evs ! t = (i, ev)" "step n ev = Inr n'"
proof (cases "evs ! t")
  case (Pair j ev)
  with assms have "cl_nodes (cluster_step step (cluster_at step c evs t) (j, ev)) i = Some n'"
    by (simp add: cluster_at_Suc)
  from cluster_step_node [OF this] Pair that show thesis by blast
qed

text \<open>A process that has not panicked by the end of an event of its own has taken a step.\<close>

lemma survived_step:
  assumes "t < length evs" "evs ! t = (i, ev)"
    and "i \<notin> set (cl_crashed (cluster_at step c evs (Suc t)))"
    and "cl_nodes (cluster_at step c evs (Suc t)) i = Some n'"
  obtains n where "cl_nodes (cluster_at step c evs t) i = Some n" "step n ev = Inr n'"
  using assms by (auto simp: cluster_at_Suc split: option.splits if_splits sum.splits)

text \<open>What holds of the processes at the start and is kept by their steps holds at every moment.\<close>

lemma cluster_invariant:
  assumes "\<And>i n. cl_nodes c i = Some n \<Longrightarrow> P i n"
    and "\<And>i n ev n'. P i n \<Longrightarrow> step n ev = Inr n' \<Longrightarrow> P i n'"
    and "t \<le> length evs" "cl_nodes (cluster_at step c evs t) i = Some n"
  shows "P i n"
  using assms(3,4)
proof (induction t arbitrary: n)
  case 0
  with assms(1) show ?case by simp
next
  case (Suc t)
  from Suc.prems(1) have "t < length evs" by simp
  then show ?case using Suc.prems(2)
    by (cases rule: node_at_Suc) (use Suc.IH Suc.prems(1) assms(2) in auto)
qed

text \<open>
  What the processes hold together was brought in by an event: whatever is in some process's \<open>holds\<close>
  was put there by an event of the run that \<open>asks\<close> for it, when a step adds only what its own event
  asks for and what is already held somewhere in the cluster.
\<close>

lemma held_was_asked:
  assumes start: "\<And>i n. cl_nodes c i = Some n \<Longrightarrow> holds n = {}"
    and step: "\<And>t i n ev n' x. t < length evs \<Longrightarrow> cl_nodes (cluster_at step c evs t) i = Some n \<Longrightarrow>
          evs ! t = (i, ev) \<Longrightarrow> step n ev = Inr n' \<Longrightarrow> x \<in> holds n' \<Longrightarrow>
          asks t x \<or> (\<exists>j m. cl_nodes (cluster_at step c evs t) j = Some m \<and> x \<in> holds m)"
    and "t \<le> length evs" "cl_nodes (cluster_at step c evs t) i = Some n" "x \<in> holds n"
  shows "\<exists>s<t. asks s x"
  using assms(3-5)
proof (induction t arbitrary: i n)
  case 0
  with start show ?case by simp
next
  case (Suc t)
  then have t: "t < length evs" by simp
  have before: "\<exists>s<Suc t. asks s x"
    if "cl_nodes (cluster_at step c evs t) j = Some m" "x \<in> holds m" for j m
    using Suc.IH [OF less_imp_le [OF t] that] by (metis less_Suc_eq)
  from t show ?case using Suc.prems(2)
  proof (cases rule: node_at_Suc)
    case (1 m)
    with Suc.prems(3) before show ?thesis by blast
  next
    case (2 m ev)
    from step [OF t 2 Suc.prems(3)] before show ?thesis by blast
  qed
qed

end
