(* ===== verification/Cluster.thy ===== *)
theory Cluster
  imports Maelstrom_Node Run_History Interleaved_Runs
begin

text \<open>
  Several nodes of \<open>src/bin/maelstrom_node.rs\<close> running side by side. A run interleaves the events of
  the nodes in any order; what arrives on a node's input is up to the environment (lost, delayed,
  reordered and repeated messages are all runs). The locale \<open>consensus_run\<close> states what the
  consensus library documents of a whole cluster: every decided log is a prefix of one log, and what
  is decided was proposed. What clients observe are the requests that reach the nodes and the answers on
  the nodes' outputs; with numbered requests that are decided at most once (\<open>exactly_once_run\<close>) it is
  linearizable, and whatever is due is answered.
\<close>

section \<open>Clusters and runs\<close>

type_synonym ('j, 'o, 'm) node_cluster = "(string, ('j, 'o, 'm) maelstrom_node) cluster"

type_synonym cluster_event = "string \<times> node_event"

text \<open>Every node of a fresh cluster has just started under its own name.\<close>

definition fresh_cluster ::
    "('j, 'o, 'm, 'q) node_env \<Rightarrow> ('j, 'o, 'm) node_cluster \<Rightarrow> bool" where
  "fresh_cluster E c \<longleftrightarrow>
     (\<forall>i n. cl_nodes c i = Some n \<longrightarrow> node_id n = i \<and> (\<exists>line. node_start E line = Inr n))"

section \<open>What clients observe of a run\<close>

text \<open>
  The requests event \<open>t\<close> brings from a client, with the node that receives them as coordinator.
\<close>

definition client_requests ::
    "('j, 'o, 'm, 'q) node_env \<Rightarrow> cluster_event list \<Rightarrow> nat \<Rightarrow> 'j maelstrom_command list" where
  "client_requests E evs t =
     (case evs ! t of
        (i, Line line) \<Rightarrow>
          (case Option.bind (j_from_str (ne_json E) line) (client_command E i) of
             Some c \<Rightarrow> [c]
           | None \<Rightarrow> [])
      | (i, Tick) \<Rightarrow> [])"

definition invoked_at ::
    "('j, 'o, 'm, 'q) node_env \<Rightarrow> cluster_event list \<Rightarrow> nat \<Rightarrow> 'j maelstrom_command \<Rightarrow> bool" where
  "invoked_at E evs t c \<longleftrightarrow> c \<in> set (client_requests E evs t)"

lemma invoked_atI:
  "evs ! t = (i, Line line) \<Longrightarrow> j_from_str (ne_json E) line = Some msg \<Longrightarrow>
     client_command E i msg = Some c \<Longrightarrow> invoked_at E evs t c"
  by (simp add: invoked_at_def client_requests_def)

text \<open>
  A client recognises the answer to its request by the sender, by its own name as the receiver and by
  the number of the request, and reads the result off the answer.
\<close>

definition request_route :: "'j maelstrom_command \<Rightarrow> string \<times> string \<times> u64" where
  "request_route c = (coordinator c, client_src c, msg_id c)"

fun reply_route :: "'j out_msg \<Rightarrow> (string \<times> string \<times> u64) option" where
  "reply_route (Error_Msg src dest in_reply_to _ _) = Some (src, dest, in_reply_to)"
| "reply_route (Read_Ok src dest in_reply_to _) = Some (src, dest, in_reply_to)"
| "reply_route (Write_Ok src dest in_reply_to) = Some (src, dest, in_reply_to)"
| "reply_route (Cas_Ok src dest in_reply_to) = Some (src, dest, in_reply_to)"
| "reply_route _ = None"

fun reply_result :: "'j out_msg \<Rightarrow> 'j kv_result option" where
  "reply_result (Error_Msg _ _ _ code _) =
     (if code = 20 then Some Not_Found else if code = 22 then Some Precondition_Failed else None)"
| "reply_result (Read_Ok _ _ _ v) = Some (Value v)"
| "reply_result (Write_Ok _ _ _) = Some Written"
| "reply_result (Cas_Ok _ _ _) = Some Swapped"
| "reply_result _ = None"

text \<open>The first answer to a request on its coordinator's output after \<open>t\<close> events, and its result.\<close>

definition node_answer ::
    "('j, 'o, 'm, 'q) node_env \<Rightarrow> ('j, 'o, 'm) node_cluster \<Rightarrow> cluster_event list \<Rightarrow> nat
       \<Rightarrow> 'j maelstrom_command \<Rightarrow> 'j out_msg option" where
  "node_answer E c0 evs t c =
     (case cl_nodes (cluster_at (node_step E) c0 evs t) (coordinator c) of
        None \<Rightarrow> None
      | Some n \<Rightarrow> find (\<lambda>m. reply_route m = Some (request_route c)) (stdout n))"

definition node_result ::
    "('j, 'o, 'm, 'q) node_env \<Rightarrow> ('j, 'o, 'm) node_cluster \<Rightarrow> cluster_event list \<Rightarrow> nat
       \<Rightarrow> 'j maelstrom_command \<Rightarrow> 'j kv_result option" where
  "node_result E c0 evs t c = Option.bind (node_answer E c0 evs t c) reply_result"

text \<open>
  A request is due when its coordinator has handled an event, a tick or a message, and survived it,
  with the request decided: by then the client must have its answer.
\<close>

definition due ::
    "('j, 'o, 'm, 'q) node_env \<Rightarrow> ('o \<Rightarrow> 'j maelstrom_command list) \<Rightarrow> ('j, 'o, 'm) node_cluster
       \<Rightarrow> cluster_event list \<Rightarrow> 'j maelstrom_command \<Rightarrow> bool" where
  "due E decided c0 evs c \<longleftrightarrow>
     (\<exists>t<length evs. \<exists>ev n.
        evs ! t = (coordinator c, ev) \<and>
        (case ev of Tick \<Rightarrow> True | Line line \<Rightarrow> j_from_str (ne_json E) line \<noteq> None) \<and>
        coordinator c \<notin> set (cl_crashed (cluster_at (node_step E) c0 evs (Suc t))) \<and>
        cl_nodes (cluster_at (node_step E) c0 evs (Suc t)) (coordinator c) = Some n \<and>
        c \<in> set (decided (omnipaxos n)))"

lemma reply_route_reply_msg [simp]:
  "reply_route (reply_msg i c r) = Some (i, client_src c, msg_id c)"
  by (cases r) simp_all

lemma reply_result_reply_msg [simp]: "reply_result (reply_msg i c r) = Some r"
  by (cases r) simp_all

lemma find_filter_reply:
  "find (\<lambda>m. reply_route m = Some k) ms = find (\<lambda>m. reply_route m = Some k) (filter is_reply ms)"
  by (induction ms) (auto elim: reply_route.elims)

lemma node_answer_replies:
  "node_answer E c0 evs t c =
     (case cl_nodes (cluster_at (node_step E) c0 evs t) (coordinator c) of
        None \<Rightarrow> None
      | Some n \<Rightarrow> find (\<lambda>m. reply_route m = Some (request_route c)) (replies n))"
  unfolding node_answer_def by (rule option.case_cong [OF refl refl]) (rule find_filter_reply)

section \<open>Results by position\<close>

text \<open>The result of the sequential store for the entry at a position of a log.\<close>

definition log_result :: "'j maelstrom_command list \<Rightarrow> nat \<Rightarrow> 'j kv_result" where
  "log_result log p = snd (kv_spec (replay (take p log)) (op (log ! p)))"

lemma replay_log_state: "replay log = log_state kv_spec op Map.empty log"
  by (simp add: replay_def log_state_def)

lemma log_result_at: "log_result log p = result_at kv_spec op Map.empty log p"
  by (simp add: log_result_def result_at_def replay_log_state)

text \<open>The replies to a log, by position.\<close>

lemma run_log_results:
  "snd (run_log (replica_spec i) Map.empty log) =
     map (\<lambda>p. reply_msg i (log ! p) (log_result log p))
       (filter (\<lambda>p. coordinator (log ! p) = i) [0..<length log])"
proof (induction log rule: rev_induct)
  case Nil
  then show ?case by simp
next
  case (snoc c log)
  have "map (\<lambda>p. reply_msg i ((log @ [c]) ! p) (log_result (log @ [c]) p))
          (filter (\<lambda>p. coordinator ((log @ [c]) ! p) = i) [0..<length log]) =
        map (\<lambda>p. reply_msg i (log ! p) (log_result log p))
          (filter (\<lambda>p. coordinator (log ! p) = i) [0..<length log])"
    by (auto simp: nth_append log_result_def intro!: map_cong filter_cong)
  with snoc show ?case
    by (simp add: fold_laws fst_run_log_replica_spec snd_replica_spec log_result_def)
qed

section \<open>What consensus and the network promise of a run\<close>

locale consensus_run = node_libs +
  fixes c0 :: "('a, 'b, 'c) node_cluster"
    and evs :: "cluster_event list"
    and L :: "'a maelstrom_command list"
  assumes fresh: "fresh_cluster E c0"
    and agreement: "t \<le> length evs \<Longrightarrow> cl_nodes (cluster_at (node_step E) c0 evs t) i = Some n \<Longrightarrow>
          prefix (decided (omnipaxos n)) L"
    and validity: "t \<le> length evs \<Longrightarrow> cl_nodes (cluster_at (node_step E) c0 evs t) i = Some n \<Longrightarrow>
          c \<in> set (decided (omnipaxos n)) \<Longrightarrow>
          \<exists>j m. cl_nodes (cluster_at (node_step E) c0 evs t) j = Some m \<and> c \<in> proposed (omnipaxos m)"
    and no_forgery: "t < length evs \<Longrightarrow> evs ! t = (i, Line line) \<Longrightarrow>
          j_from_str (ne_json E) line = Some msg \<Longrightarrow> forward_command E msg = Some c \<Longrightarrow>
          \<exists>j m. cl_nodes (cluster_at (node_step E) c0 evs t) j = Some m \<and> c \<in> forwarded_cmds E m"
begin

lemma node_inv_at:
  assumes "t \<le> length evs" "cl_nodes (cluster_at (node_step E) c0 evs t) i = Some n"
  shows "node_inv decided n \<and> node_id n = i"
proof (rule cluster_invariant [OF _ _ assms])
  show "node_inv decided n \<and> node_id n = i" if "cl_nodes c0 i = Some n" for i n
    using fresh that start_inv unfolding fresh_cluster_def by blast
  show "node_inv decided n' \<and> node_id n' = i"
    if "node_inv decided n \<and> node_id n = i" "node_step E n ev = Inr n'" for i n ev n'
    using that step_inv step_frame(1) by blast
qed

lemma applied_log:
  assumes "t \<le> length evs" "cl_nodes (cluster_at (node_step E) c0 evs t) i = Some n"
  shows "decided_idx n \<le> length L"
    and "take (decided_idx n) (decided (omnipaxos n)) = take (decided_idx n) L"
  using node_inv_at [OF assms] agreement [OF assms] prefix_length_le [OF agreement [OF assms]]
  by (auto simp: node_inv_def intro: prefix_take_eq)

text \<open>Replies and stores are those of the sequential store on the common log.\<close>

lemma replies_sequential:
  assumes "t \<le> length evs" "cl_nodes (cluster_at (node_step E) c0 evs t) i = Some n"
  shows "replies n = snd (run_log (replica_spec i) Map.empty (take (decided_idx n) L))"
    and "kv_store n = replay (take (decided_idx n) L)"
  using node_inv_at [OF assms] applied_log [OF assms] by (simp_all add: node_inv_def)

text \<open>Whatever is handed on, waiting or proposed anywhere was asked for by a client before.\<close>

lemma handed_on_invoked:
  assumes "t \<le> length evs" "cl_nodes (cluster_at (node_step E) c0 evs t) i = Some n"
    and "c \<in> handed_on E proposed n"
  shows "\<exists>s<t. invoked_at E evs s c"
proof (rule held_was_asked [where holds = "handed_on E proposed" and asks = "invoked_at E evs", OF _ _ assms])
  fix i n
  assume "cl_nodes c0 i = Some n"
  then show "handed_on E proposed n = {}" using fresh start_handed unfolding fresh_cluster_def by blast
next
  fix t i n ev n' c
  assume t: "t < length evs" and n: "cl_nodes (cluster_at (node_step E) c0 evs t) i = Some n"
    and ev: "evs ! t = (i, ev)" and step: "node_step E n ev = Inr n'" and c: "c \<in> handed_on E proposed n'"
  from node_inv_at [OF less_imp_le [OF t] n] have inv: "node_inv decided n" "node_id n = i" by simp_all
  from step_handed [OF inv(1) step] c inv(2) consider "c \<in> handed_on E proposed n"
    | line msg where "ev = Line line" "j_from_str (ne_json E) line = Some msg"
      "client_command E i msg = Some c \<or> forward_command E msg = Some c" by blast
  then show "invoked_at E evs t c \<or>
      (\<exists>j m. cl_nodes (cluster_at (node_step E) c0 evs t) j = Some m \<and> c \<in> handed_on E proposed m)"
  proof cases
    case 1
    with n show ?thesis by blast
  next
    case (2 line msg)
    with t ev no_forgery [of t i line msg c] show ?thesis
      by (auto simp: handed_on_def intro: invoked_atI)
  qed
qed

text \<open>Nothing is decided before a client asks for it.\<close>

lemma decided_invoked:
  assumes "t \<le> length evs" "cl_nodes (cluster_at (node_step E) c0 evs t) i = Some n"
    and "c \<in> set (decided (omnipaxos n))"
  shows "\<exists>s<t. invoked_at E evs s c"
  using validity [OF assms] handed_on_invoked [OF assms(1)]
  by (metis UnCI handed_on_def)

text \<open>What a node has applied by now was asked for earlier.\<close>

lemma applied_invoked:
  assumes "t \<le> length evs" "cl_nodes (cluster_at (node_step E) c0 evs t) i = Some n" "p < decided_idx n"
  shows "\<exists>s<t. invoked_at E evs s (L ! p)"
proof -
  from assms(3) node_inv_at [OF assms(1,2)] have "p < length (decided (omnipaxos n))"
    by (simp add: node_inv_def)
  then have "L ! p \<in> set (decided (omnipaxos n))"
    using prefix_nth [OF agreement [OF assms(1,2)]] by (metis nth_mem)
  from decided_invoked [OF assms(1,2) this] show ?thesis .
qed

text \<open>The replies a node has written are the results of the log, for what it coordinates.\<close>

lemma replies_at:
  assumes "t \<le> length evs" "cl_nodes (cluster_at (node_step E) c0 evs t) i = Some n"
  shows "replies n = map (\<lambda>p. reply_msg i (L ! p) (log_result L p))
           (filter (\<lambda>p. coordinator (L ! p) = i) [0..<decided_idx n])"
proof -
  have len: "length (take (decided_idx n) L) = decided_idx n" using applied_log(1) [OF assms] by simp
  have "replies n = map (\<lambda>p. reply_msg i (take (decided_idx n) L ! p)
            (log_result (take (decided_idx n) L) p))
          (filter (\<lambda>p. coordinator (take (decided_idx n) L ! p) = i) [0..<decided_idx n])"
    by (simp only: replies_sequential(1) [OF assms] run_log_results len)
  also have "\<dots> = map (\<lambda>p. reply_msg i (L ! p) (log_result L p))
      (filter (\<lambda>p. coordinator (L ! p) = i) [0..<decided_idx n])"
    by (auto simp: log_result_def min_def intro!: map_cong filter_cong)
  finally show ?thesis .
qed

text \<open>An answer a client finds is the reply to an entry of its coordinator's applied log.\<close>

lemma answer_position:
  assumes "t \<le> length evs" "node_answer E c0 evs t c = Some m"
  obtains n p where "cl_nodes (cluster_at (node_step E) c0 evs t) (coordinator c) = Some n"
    "p < decided_idx n" "decided_idx n \<le> length L" "request_route (L ! p) = request_route c"
    "m = reply_msg (coordinator c) (L ! p) (log_result L p)"
proof -
  from assms(2) obtain n where n: "cl_nodes (cluster_at (node_step E) c0 evs t) (coordinator c) = Some n"
    and f: "find (\<lambda>m. reply_route m = Some (request_route c)) (replies n) = Some m"
    by (auto simp: node_answer_replies split: option.splits)
  from f have "m \<in> set (replies n)" "reply_route m = Some (request_route c)"
    using find_SomeD by fast+
  then obtain p where "p < decided_idx n" "coordinator (L ! p) = coordinator c"
    "m = reply_msg (coordinator c) (L ! p) (log_result L p)"
    unfolding replies_at [OF assms(1) n] by auto
  moreover from this \<open>reply_route m = _\<close> have "request_route (L ! p) = request_route c"
    by (simp add: request_route_def)
  ultimately show thesis using that n applied_log(1) [OF assms(1) n] by blast
qed

text \<open>Every entry its coordinator has applied is answered.\<close>

lemma applied_answered:
  assumes "t \<le> length evs" "cl_nodes (cluster_at (node_step E) c0 evs t) i = Some n"
    and "p < decided_idx n" "coordinator (L ! p) = i"
  shows "node_answer E c0 evs t (L ! p) \<noteq> None"
proof -
  have "reply_msg i (L ! p) (log_result L p) \<in> set (replies n)"
    unfolding replies_at [OF assms(1,2)] using assms(3,4) by auto
  moreover have "reply_route (reply_msg i (L ! p) (log_result L p)) = Some (request_route (L ! p))"
    using assms(4) by (simp add: request_route_def)
  ultimately have "find (\<lambda>m. reply_route m = Some (request_route (L ! p))) (replies n) \<noteq> None"
    unfolding find_None_iff by blast
  then show ?thesis using assms(2,4) by (simp add: node_answer_replies)
qed

text \<open>Whatever is due has been answered.\<close>

lemma due_applied:
  assumes "due E decided c0 evs c"
  obtains t n p where "t \<le> length evs" "cl_nodes (cluster_at (node_step E) c0 evs t) (coordinator c) = Some n"
    "p < decided_idx n" "decided_idx n \<le> length L" "L ! p = c"
proof -
  from assms obtain t ev n' where t: "t < length evs" "evs ! t = (coordinator c, ev)"
    and handled: "case ev of Tick \<Rightarrow> True | Line line \<Rightarrow> j_from_str (ne_json E) line \<noteq> None"
    and alive: "coordinator c \<notin> set (cl_crashed (cluster_at (node_step E) c0 evs (Suc t)))"
    and n': "cl_nodes (cluster_at (node_step E) c0 evs (Suc t)) (coordinator c) = Some n'"
    and c: "c \<in> set (decided (omnipaxos n'))"
    unfolding due_def by blast
  obtain n where n: "cl_nodes (cluster_at (node_step E) c0 evs t) (coordinator c) = Some n"
    "node_step E n ev = Inr n'"
    using survived_step [OF t alive n'] .
  from node_inv_at [OF less_imp_le [OF t(1)] n(1)] n(2) handled
  have idx: "decided_idx n' = length (decided (omnipaxos n'))" by (auto intro: step_catches_up)
  have le: "Suc t \<le> length evs" using t(1) by simp
  from c obtain p where p: "p < decided_idx n'" "decided (omnipaxos n') ! p = c"
    unfolding idx by (auto simp: in_set_conv_nth)
  with prefix_nth [OF agreement [OF le n']] idx have "L ! p = c" by metis
  with that [OF le n' p(1) applied_log(1) [OF le n']] show thesis by blast
qed

end

text \<open>
  Clients number their requests, so that no two requests share sender, receiver and number, and no
  request is decided twice.
\<close>

locale exactly_once_run = consensus_run +
  assumes once: "distinct L"
    and numbered: "inj_on request_route (set (run_requests (client_requests E evs) (length evs)))"
begin

lemma answer_of_request:
  assumes "t \<le> length evs" "c \<in> set (run_requests (client_requests E evs) (length evs))"
    and "node_answer E c0 evs t c = Some m"
  obtains n p where "cl_nodes (cluster_at (node_step E) c0 evs t) (coordinator c) = Some n"
    "p < decided_idx n" "p < length L" "L ! p = c" "m = reply_msg (coordinator c) c (log_result L p)"
proof -
  from answer_position [OF assms(1,3)] obtain n p where
    n: "cl_nodes (cluster_at (node_step E) c0 evs t) (coordinator c) = Some n" "p < decided_idx n"
      "decided_idx n \<le> length L"
    and route: "request_route (L ! p) = request_route c"
    and m: "m = reply_msg (coordinator c) (L ! p) (log_result L p)" .
  from applied_invoked [OF assms(1) n(1,2)] obtain s where "s < t" "invoked_at E evs s (L ! p)" by blast
  with assms(1) have "L ! p \<in> set (run_requests (client_requests E evs) (length evs))"
    unfolding in_run_requests invoked_at_def by (meson less_le_trans)
  with inj_onD [OF numbered route] assms(2) have "L ! p = c" by blast
  with that n m show thesis by simp
qed

end

text \<open>Such a run is a run over a log, so what clients observe is linearizable.\<close>

sublocale exactly_once_run \<subseteq> lr: log_run kv_spec op Map.empty L "client_requests E evs"
    "node_result E c0 evs" "length evs"
proof (unfold_locales, rule once)
  fix t c r
  assume t: "t \<le> length evs" and c: "c \<in> set (run_requests (client_requests E evs) (length evs))"
    and r: "node_result E c0 evs t c = Some r"
  from r obtain m where m: "node_answer E c0 evs t c = Some m" "reply_result m = Some r"
    by (auto simp: node_result_def bind_eq_Some_conv)
  from answer_of_request [OF t c m(1)] obtain n p where
    n: "cl_nodes (cluster_at (node_step E) c0 evs t) (coordinator c) = Some n" "p < decided_idx n"
    and p: "p < length L" "L ! p = c" "m = reply_msg (coordinator c) c (log_result L p)" .
  have "\<exists>s<t. L ! q \<in> set (client_requests E evs s)" if "q \<le> p" for q
    using applied_invoked [OF t n(1)] n(2) that unfolding invoked_at_def by simp
  moreover have "r = result_at kv_spec op Map.empty L p" using m(2) p(3) by (simp add: log_result_at)
  ultimately show "\<exists>p<length L. L ! p = c \<and> r = result_at kv_spec op Map.empty L p \<and>
      (\<forall>q\<le>p. \<exists>s<t. L ! q \<in> set (client_requests E evs s))"
    using p(1,2) by blast
qed

context exactly_once_run
begin

lemma observed_linearizable:
  "linearizable_run kv_spec op Map.empty (client_requests E evs) (node_result E c0 evs) (length evs)"
  by (rule lr.run_linearizable)

text \<open>Whatever is due has been answered, with the result of its position in the log.\<close>

lemma due_answered:
  assumes "due E decided c0 evs c"
  obtains p where "p < length L" "L ! p = c" "c \<in> set (run_requests (client_requests E evs) (length evs))"
    "outcome (node_result E c0 evs) (length evs) c = Some (log_result L p)"
proof -
  from due_applied [OF assms] obtain t n p where t: "t \<le> length evs"
    and n: "cl_nodes (cluster_at (node_step E) c0 evs t) (coordinator c) = Some n" "p < decided_idx n"
    and p: "decided_idx n \<le> length L" "L ! p = c" .
  from applied_invoked [OF t n] t p(2) have req: "c \<in> set (run_requests (client_requests E evs) (length evs))"
    unfolding in_run_requests invoked_at_def by (meson less_le_trans)
  from applied_answered [OF t n] p(2) obtain m where m: "node_answer E c0 evs t c = Some m" by auto
  from answer_of_request [OF t req m] have "node_result E c0 evs t c \<noteq> None"
    by (metis bind.bind_lunit m node_result_def option.discI reply_result_reply_msg)
  then have "return_time (node_result E c0 evs) (length evs) c \<le> length evs"
    using return_time_le [OF t] by (metis le_trans not_None_eq t)
  with lr.returned_position(1) [of p] n(2) p req that [of p] show thesis by (simp add: log_result_at)
qed

text \<open>The answer a due request has returned with, and the order of calls and returns.\<close>

lemma due_answer:
  assumes "p < length L" "due E decided c0 evs (L ! p)"
  shows "node_answer E c0 evs (return_time (node_result E c0 evs) (length evs) (L ! p)) (L ! p) =
           Some (reply_msg (coordinator (L ! p)) (L ! p) (log_result L p))"
proof -
  let ?t = "return_time (node_result E c0 evs) (length evs) (L ! p)"
  from due_answered [OF assms(2)] obtain p' where "p' < length L" "L ! p' = L ! p"
    and req: "L ! p \<in> set (run_requests (client_requests E evs) (length evs))"
    and out: "outcome (node_result E c0 evs) (length evs) (L ! p) = Some (log_result L p')" .
  from outcome_SomeD [OF out] have t: "?t \<le> length evs" "node_result E c0 evs ?t (L ! p) \<noteq> None" by simp_all
  then obtain m where m: "node_answer E c0 evs ?t (L ! p) = Some m"
    by (auto simp: node_result_def bind_eq_Some_conv)
  from answer_of_request [OF t(1) req m] obtain q where "q < length L" "L ! q = L ! p"
    "m = reply_msg (coordinator (L ! p)) (L ! p) (log_result L q)" .
  with once assms(1) m show ?thesis by (simp add: nth_eq_iff_index_eq)
qed

lemma called_before_due:
  assumes "p \<le> q" "q < length L" "due E decided c0 evs (L ! q)"
  shows "call_time (client_requests E evs) (length evs) (L ! p) \<le>
           return_time (node_result E c0 evs) (length evs) (L ! q)"
  using lr.called_before_return [OF assms(1,2)] due_answered [OF assms(3)] by blast

end

end
