(* ===== verification/Cluster_Scenario.thy ===== *)
theory Cluster_Scenario
  imports Cluster
begin

text \<open>
  A concrete run of two nodes over the leader-based log: a client writes at \<open>n1\<close>, which forwards the
  command to the leader \<open>n0\<close>; \<open>n0\<close> appends and applies it and tells \<open>n1\<close>, which applies it and
  answers; then another client reads at \<open>n0\<close>. It instantiates \<open>consensus_run\<close> and
  \<open>exactly_once_run\<close>.
\<close>

section \<open>Messages\<close>

definition sc_write :: "json_value maelstrom_command" where
  "sc_write = \<lparr>coordinator = ''n1'', client_src = ''c1'', msg_id = 1, op = Write ''x'' (JNum 7)\<rparr>"

definition sc_read :: "json_value maelstrom_command" where
  "sc_read = \<lparr>coordinator = ''n0'', client_src = ''c2'', msg_id = 2, op = Read ''x''\<rparr>"

definition sc_msg :: "string \<Rightarrow> string \<Rightarrow> (string \<times> json_value) list \<Rightarrow> json_value" where
  "sc_msg src dest body = JObj [(''src'', JStr src), (''dest'', JStr dest), (''body'', JObj body)]"

definition sc_init :: "string \<Rightarrow> json_value" where
  "sc_init nid = sc_msg ''harness'' nid
     [(''type'', JStr ''init''), (''msg_id'', JNum 0), (''node_id'', JStr nid),
      (''node_ids'', JArr [JStr ''n0'', JStr ''n1''])]"

definition sc_lines :: "string \<Rightarrow> json_value option" where
  "sc_lines line =
     (if line = ''i0'' then Some (sc_init ''n0'')
      else if line = ''i1'' then Some (sc_init ''n1'')
      else if line = ''w'' then Some (sc_msg ''c1'' ''n1''
        [(''type'', JStr ''write''), (''msg_id'', JNum 1), (''key'', JStr ''x''), (''value'', JNum 7)])
      else if line = ''f'' then Some (sc_msg ''n1'' ''n0''
        [(''type'', JStr ''forward''), (''data'', JStr (enc count_codec sc_write))])
      else if line = ''p'' then Some (sc_msg ''n0'' ''n1''
        [(''type'', JStr ''omnipaxos''), (''data'', JStr (enc count_codec ((2::u64), [sc_write])))])
      else if line = ''r'' then Some (sc_msg ''c2'' ''n0''
        [(''type'', JStr ''read''), (''msg_id'', JNum 2), (''key'', JStr ''x'')])
      else None)"

definition sc_events :: "cluster_event list" where
  "sc_events = [(''n1'', Line ''w''), (''n0'', Line ''f''), (''n1'', Line ''p''), (''n0'', Line ''r'')]"

definition sc_log :: "json_value maelstrom_command list" where
  "sc_log = [sc_write, sc_read]"

section \<open>States\<close>

abbreviation "sc_env \<equiv> log_env sc_lines"

type_synonym sc_node =
  "(json_value, json_value maelstrom_command leader_log,
    op_node_id \<times> json_value maelstrom_command list) maelstrom_node"

definition sc_node ::
    "string \<Rightarrow> u64 \<Rightarrow> json_value maelstrom_command list \<Rightarrow> json_value maelstrom_command list
       \<Rightarrow> json_value kv_data \<Rightarrow> json_value out_msg list \<Rightarrow> sc_node" where
  "sc_node nid pid log prop kv out =
     \<lparr>node_id = nid,
      omnipaxos = \<lparr>ll_pid = pid, ll_nodes = [1, 2], ll_log = log, ll_proposed = prop, ll_out = []\<rparr>,
      kv_store = kv, decided_idx = length log, msg_buffer = [],
      stdout = Init_Ok nid ''harness'' (JNum 0) # out, node_ids = [''n0'', ''n1''],
      pending_forwards = []\<rparr>"

abbreviation "sc_kv \<equiv> Map.empty(''x'' \<mapsto> JNum 7)"
abbreviation "sc_fwd \<equiv> Forward_Msg ''n1'' ''n0'' (enc count_codec sc_write)"
abbreviation "sc_pax log \<equiv> Omnipaxos_Msg ''n0'' ''n1'' (enc count_codec ((2::u64), log))"

definition "sc_a0 = sc_node ''n0'' 1 [] [] Map.empty []"
definition "sc_a1 = sc_node ''n0'' 1 [sc_write] [sc_write] sc_kv [sc_pax [sc_write]]"
definition "sc_a2 = sc_node ''n0'' 1 sc_log sc_log sc_kv
  [sc_pax [sc_write], sc_pax sc_log, Read_Ok ''n0'' ''c2'' 2 (JNum 7)]"
definition "sc_b0 = sc_node ''n1'' 2 [] [] Map.empty []"
definition "sc_b1 = sc_node ''n1'' 2 [] [] Map.empty [sc_fwd]"
definition "sc_b2 = sc_node ''n1'' 2 [sc_write] [] sc_kv [sc_fwd, Write_Ok ''n1'' ''c1'' 1]"

definition sc_cluster ::
    "sc_node \<Rightarrow> sc_node \<Rightarrow>
     (json_value, json_value maelstrom_command leader_log,
      op_node_id \<times> json_value maelstrom_command list) node_cluster" where
  "sc_cluster a b = \<lparr>cl_nodes = [''n0'' \<mapsto> a, ''n1'' \<mapsto> b], cl_crashed = []\<rparr>"

definition "sc_start = sc_cluster sc_a0 sc_b0"

section \<open>Evaluation\<close>

lemma sc_show: "show_u64 0 = ''0''" "show_u64 1 = ''1''"
  by (simp_all add: show_u64_def show_nat.simps digit_char_def char_of_def bit_numeral_rec bit_0)

lemma sc_ids [simp]:
  "op_to_maelstrom_id 1 = ''n0''" "op_to_maelstrom_id 2 = ''n1''"
  "maelstrom_to_op_id ''n0'' = Inr 1" "maelstrom_to_op_id ''n1'' = Inr 2"
  using maelstrom_to_op_id_show [of 0] maelstrom_to_op_id_show [of 1]
  by (simp_all add: op_to_maelstrom_id_def sc_show)

lemmas sc_unfold =
  log_env_def value_json_def leader_paxos_def ll_append_def ll_handle_incoming_def
  sc_lines_def sc_msg_def sc_init_def sc_node_def
  node_start_def node_new_def on_line_def dispatch_def handle_client_request_def
  handle_forwarded_request_def handle_omnipaxos_message_def try_append_def
  send_outgoing_messages_def process_decided_entries_def apply_and_respond_def send_error_def
  send_msg_def Let_def

lemma sc_start_nodes:
  "node_start sc_env ''i0'' = Inr sc_a0" "node_start sc_env ''i1'' = Inr sc_b0"
  by (simp_all add: sc_unfold sc_a0_def sc_b0_def)

lemma sc_steps:
  "node_step sc_env sc_b0 (Line ''w'') = Inr sc_b1"
  "node_step sc_env sc_a0 (Line ''f'') = Inr sc_a1"
  "node_step sc_env sc_b1 (Line ''p'') = Inr sc_b2"
  "node_step sc_env sc_a1 (Line ''r'') = Inr sc_a2"
  by (simp_all add: sc_unfold sc_a0_def sc_a1_def sc_a2_def sc_b0_def sc_b1_def sc_b2_def
      sc_write_def sc_read_def sc_log_def)

lemma sc_events_len [simp]: "length sc_events = 4"
  by (simp add: sc_events_def)

lemma sc_states:
  "cluster_at (node_step sc_env) sc_start sc_events 0 = sc_cluster sc_a0 sc_b0"
  "cluster_at (node_step sc_env) sc_start sc_events 1 = sc_cluster sc_a0 sc_b1"
  "cluster_at (node_step sc_env) sc_start sc_events 2 = sc_cluster sc_a1 sc_b1"
  "cluster_at (node_step sc_env) sc_start sc_events 3 = sc_cluster sc_a1 sc_b2"
  "cluster_at (node_step sc_env) sc_start sc_events 4 = sc_cluster sc_a2 sc_b2"
  by (simp_all add: cluster_at_def sc_events_def sc_start_def sc_cluster_def sc_steps fun_upd_twist
      del: node_step.simps)

lemma sc_nodes:
  "cl_nodes (sc_cluster a b) i = Some n \<longleftrightarrow> (i = ''n0'' \<and> n = a) \<or> (i = ''n1'' \<and> n = b)"
  by (auto simp: sc_cluster_def)

lemma sc_start_nodes_at: "cl_nodes sc_start = cl_nodes (sc_cluster sc_a0 sc_b0)"
  by (simp add: sc_start_def)

lemmas sc_eval = sc_states sc_states(2) [unfolded One_nat_def] sc_start_nodes_at sc_nodes

lemma sc_time: "t \<le> length sc_events \<Longrightarrow> t = 0 \<or> t = 1 \<or> t = 2 \<or> t = 3 \<or> t = 4"
  by auto

lemmas sc_node_simps =
  sc_a0_def sc_a1_def sc_a2_def sc_b0_def sc_b1_def sc_b2_def sc_node_def sc_log_def

lemma sc_agreement:
  assumes "t \<le> length sc_events" "cl_nodes (cluster_at (node_step sc_env) sc_start sc_events t) i = Some n"
  shows "prefix (ll_log (omnipaxos n)) sc_log"
  using sc_time [OF assms(1)] assms(2)
  by (elim disjE) (simp_all add: sc_eval, auto simp: sc_node_simps)

lemma sc_validity:
  assumes "t \<le> length sc_events" "cl_nodes (cluster_at (node_step sc_env) sc_start sc_events t) i = Some n"
    and "c \<in> set (ll_log (omnipaxos n))"
  shows "\<exists>j m. cl_nodes (cluster_at (node_step sc_env) sc_start sc_events t) j = Some m \<and>
           c \<in> log_proposed (omnipaxos m)"
proof -
  have "c \<in> log_proposed (omnipaxos (the (cl_nodes (cluster_at (node_step sc_env) sc_start sc_events t) ''n0'')))"
    using sc_time [OF assms(1)] assms(2,3)
    by (elim disjE) (simp_all add: sc_eval, auto simp: sc_cluster_def sc_node_simps)
  moreover have "\<exists>m. cl_nodes (cluster_at (node_step sc_env) sc_start sc_events t) ''n0'' = Some m"
    using sc_time [OF assms(1)] by (elim disjE) (simp_all add: sc_eval)
  ultimately show ?thesis by fastforce
qed

lemma sc_no_forgery:
  assumes "t < length sc_events" "sc_events ! t = (i, Line line)"
    and "j_from_str (ne_json sc_env) line = Some msg" "forward_command sc_env msg = Some c"
  shows "\<exists>j m. cl_nodes (cluster_at (node_step sc_env) sc_start sc_events t) j = Some m \<and>
           c \<in> forwarded_cmds sc_env m"
proof -
  have "t = 0 \<or> t = 1 \<or> t = 2 \<or> t = 3" using assms(1) by auto
  with assms(2-4) have t: "t = 1" "c = sc_write"
    by (elim disjE;
        auto simp: sc_events_def forward_command_def msg_type_of_def log_env_def value_json_def
          sc_lines_def sc_msg_def Let_def)+
  have "c \<in> forwarded_cmds sc_env sc_b1"
    by (auto simp: t forwarded_cmds_def sc_b1_def sc_node_def log_env_def)
  with t show ?thesis by (auto simp: sc_eval)
qed

lemma sc_fresh: "fresh_cluster sc_env sc_start"
  unfolding fresh_cluster_def sc_start_def
  using sc_start_nodes by (auto simp: sc_nodes sc_a0_def sc_b0_def sc_node_def)

interpretation sc: consensus_run sc_env ll_log log_proposed sc_start sc_events sc_log
  by unfold_locales (rule sc_fresh sc_agreement sc_validity sc_no_forgery; assumption)+

section \<open>What the clients of the scenario observe\<close>

lemma sc_requests:
  "client_requests sc_env sc_events 0 = [sc_write]" "client_requests sc_env sc_events (Suc 0) = []"
  "client_requests sc_env sc_events 2 = []" "client_requests sc_env sc_events 3 = [sc_read]"
  by (simp_all add: client_requests_def sc_events_def client_command_def msg_type_of_def
      log_env_def value_json_def sc_lines_def sc_msg_def sc_write_def sc_read_def)

lemma sc_moments: "[0..<4] = [0, 1, 2, 3]" "[0..<Suc 4] = [0, 1, 2, 3, 4]"
  by (simp_all add: upt_rec)

lemma sc_all_requests: "set (run_requests (client_requests sc_env sc_events) 4) = {sc_write, sc_read}"
  unfolding run_requests_def sc_moments by (simp add: sc_requests)

interpretation sx: exactly_once_run sc_env ll_log log_proposed sc_start sc_events sc_log
proof
  show "distinct sc_log" by (simp add: sc_log_def sc_write_def sc_read_def)
  show "inj_on request_route (set (run_requests (client_requests sc_env sc_events) (length sc_events)))"
    by (simp add: sc_all_requests request_route_def sc_write_def sc_read_def)
qed

lemma sc_call_times:
  "call_time (client_requests sc_env sc_events) 4 sc_write = 0"
  "call_time (client_requests sc_env sc_events) 4 sc_read = 3"
  unfolding call_time_def first_time_def sc_moments
  by (simp_all add: sc_requests) (simp_all add: sc_write_def sc_read_def)

lemma sc_answers:
  "node_answer sc_env sc_start sc_events t sc_write =
     (if t = 3 \<or> t = 4 then Some (Write_Ok ''n1'' ''c1'' 1) else None)"
  "node_answer sc_env sc_start sc_events t sc_read =
     (if t = 4 then Some (Read_Ok ''n0'' ''c2'' 2 (JNum 7)) else None)" if "t \<le> 4"
proof -
  note unfold = node_answer_def sc_eval sc_cluster_def sc_node_simps request_route_def sc_write_def sc_read_def
  have t: "t = 0 \<or> t = 1 \<or> t = 2 \<or> t = 3 \<or> t = 4" using sc_time [of t] that by simp
  then show "node_answer sc_env sc_start sc_events t sc_write =
     (if t = 3 \<or> t = 4 then Some (Write_Ok ''n1'' ''c1'' 1) else None)"
    by (elim disjE) (simp_all add: unfold)
  from t show "node_answer sc_env sc_start sc_events t sc_read =
     (if t = 4 then Some (Read_Ok ''n0'' ''c2'' 2 (JNum 7)) else None)"
    by (elim disjE) (simp_all add: unfold)
qed

lemma sc_return_times:
  "return_time (node_result sc_env sc_start sc_events) 4 sc_write = 3"
  "return_time (node_result sc_env sc_start sc_events) 4 sc_read = 4"
  unfolding return_time_def first_time_def sc_moments by (simp_all add: node_result_def sc_answers)

text \<open>Both operations are due: each coordinator has handled a message with the operation decided.\<close>

lemma sc_due: "due sc_env ll_log sc_start sc_events sc_write" "due sc_env ll_log sc_start sc_events sc_read"
proof -
  have w: "coordinator sc_write = ''n1''" and r: "coordinator sc_read = ''n0''"
    by (simp_all add: sc_write_def sc_read_def)
  have lines: "sc_lines ''p'' \<noteq> None" "sc_lines ''r'' \<noteq> None" by (simp_all add: sc_lines_def)
  have ev: "sc_events ! 2 = (''n1'', Line ''p'')" "sc_events ! 3 = (''n0'', Line ''r'')"
    by (simp_all add: sc_events_def)
  have at: "cluster_at (node_step sc_env) sc_start sc_events (Suc 2) = sc_cluster sc_a1 sc_b2"
    "cluster_at (node_step sc_env) sc_start sc_events (Suc 3) = sc_cluster sc_a2 sc_b2"
    using sc_states(4,5) by (simp_all add: eval_nat_numeral)
  show "due sc_env ll_log sc_start sc_events sc_write"
    unfolding due_def w
    by (rule exI [of _ 2]) (use ev at lines in \<open>simp add: log_env_def sc_nodes\<close>,
        simp add: sc_cluster_def sc_node_simps)
  show "due sc_env ll_log sc_start sc_events sc_read"
    unfolding due_def r
    by (rule exI [of _ 3]) (use ev at lines in \<open>simp add: log_env_def sc_nodes\<close>,
        simp add: sc_cluster_def sc_node_simps)
qed

end
