(* ===== verification/Network_Simulator.thy ===== *)
theory Network_Simulator
  imports Prelude
begin

text \<open>
  Fault injection of \<open>src/bin/jepsen_harness.rs\<close>: \<open>NetworkSimulator\<close> with its partition table and
  its list of killed nodes. A partition is a table of directed pairs; the invariant is that it is
  symmetric, so a link is cut in both directions or in none.
\<close>

section \<open>State and operations\<close>

record network_simulator =
  partitions :: "string \<times> string \<rightharpoonup> bool"
  killed_nodes :: "string list"

definition simulator_new :: network_simulator where
  "simulator_new = \<lparr>partitions = Map.empty, killed_nodes = []\<rparr>"

definition is_partitioned :: "network_simulator \<Rightarrow> string \<Rightarrow> string \<Rightarrow> bool" where
  "is_partitioned net src dest = unwrap_or False (partitions net (src, dest))"

definition is_killed :: "network_simulator \<Rightarrow> string \<Rightarrow> bool" where
  "is_killed net n \<longleftrightarrow> n \<in> set (killed_nodes net)"

text \<open>The two \<open>insert\<close>s that cut one link in both directions.\<close>

definition cut :: "string \<Rightarrow> string \<Rightarrow> network_simulator \<Rightarrow> network_simulator" where
  "cut a b net = net\<lparr>partitions := (partitions net)((a, b) \<mapsto> True, (b, a) \<mapsto> True)\<rparr>"

definition isolate_node :: "network_simulator \<Rightarrow> string \<Rightarrow> string list \<Rightarrow> network_simulator" where
  "isolate_node net n all_nodes =
     foldl (\<lambda>net other. if other \<noteq> n then cut n other net else net) net all_nodes"

definition split_brain :: "network_simulator \<Rightarrow> string list \<Rightarrow> network_simulator" where
  "split_brain net all_nodes =
     (let mid = length all_nodes div 2;
          group_a = take mid all_nodes;
          group_b = drop mid all_nodes
      in foldl (\<lambda>net a. foldl (\<lambda>net b. cut a b net) net group_b) net group_a)"

definition heal_all :: "network_simulator \<Rightarrow> network_simulator" where
  "heal_all net = net\<lparr>partitions := Map.empty\<rparr>"

definition kill_node :: "network_simulator \<Rightarrow> string \<Rightarrow> network_simulator" where
  "kill_node net n = net\<lparr>killed_nodes := killed_nodes net @ [n]\<rparr>"

definition restart_node :: "network_simulator \<Rightarrow> string \<Rightarrow> network_simulator" where
  "restart_node net n = net\<lparr>killed_nodes := filter (\<lambda>m. m \<noteq> n) (killed_nodes net)\<rparr>"

section \<open>What the operations do\<close>

lemma cut_partitioned [simp]:
  "is_partitioned (cut a b net) x y \<longleftrightarrow> (x, y) = (a, b) \<or> (x, y) = (b, a) \<or> is_partitioned net x y"
  by (auto simp: is_partitioned_def cut_def)

lemma killed_cut [simp]: "killed_nodes (cut a b net) = killed_nodes net"
  by (simp add: cut_def)

text \<open>A loop that cuts links cuts exactly those, and leaves the rest.\<close>

lemma foldl_cuts:
  "is_partitioned (foldl (\<lambda>net b. if c b then cut a b net else net) net bs) x y \<longleftrightarrow>
     is_partitioned net x y \<or> (\<exists>b\<in>set bs. c b \<and> ((x, y) = (a, b) \<or> (x, y) = (b, a)))"
  by (induction bs arbitrary: net) auto

lemma foldl_foldl_cuts:
  "is_partitioned (foldl (\<lambda>net a. foldl (\<lambda>net b. cut a b net) net bs) net as) x y \<longleftrightarrow>
     is_partitioned net x y \<or> (\<exists>a\<in>set as. \<exists>b\<in>set bs. (x, y) = (a, b) \<or> (x, y) = (b, a))"
proof (induction as arbitrary: net)
  case Nil
  then show ?case by simp
next
  case (Cons a as)
  have "is_partitioned (foldl (\<lambda>net b. cut a b net) net bs) x y \<longleftrightarrow>
      is_partitioned net x y \<or> (\<exists>b\<in>set bs. (x, y) = (a, b) \<or> (x, y) = (b, a))"
    using foldl_cuts [of "\<lambda>_. True" a net bs x y] by simp
  then show ?case by (simp add: Cons.IH)
qed

lemma isolate_node_partitioned:
  "is_partitioned (isolate_node net n all) x y \<longleftrightarrow>
     is_partitioned net x y \<or> (x = n \<and> y \<noteq> n \<and> y \<in> set all) \<or> (y = n \<and> x \<noteq> n \<and> x \<in> set all)"
  unfolding isolate_node_def foldl_cuts by auto

lemma split_brain_partitioned:
  "is_partitioned (split_brain net all) x y \<longleftrightarrow>
     is_partitioned net x y \<or>
     (let A = set (take (length all div 2) all); B = set (drop (length all div 2) all)
      in (x \<in> A \<and> y \<in> B) \<or> (x \<in> B \<and> y \<in> A))"
  unfolding split_brain_def Let_def foldl_foldl_cuts by auto

lemma heal_all_partitioned [simp]: "\<not> is_partitioned (heal_all net) x y"
  by (simp add: heal_all_def is_partitioned_def)

lemma foldl_cuts_killed:
  "killed_nodes (foldl (\<lambda>net b. if c b then cut a b net else net) net bs) = killed_nodes net"
  by (induction bs arbitrary: net) auto

lemma killed_nodes_frame [simp]:
  "killed_nodes (isolate_node net n all) = killed_nodes net"
  "killed_nodes (split_brain net all) = killed_nodes net"
  "killed_nodes (heal_all net) = killed_nodes net"
proof -
  show "killed_nodes (isolate_node net n all) = killed_nodes net"
    unfolding isolate_node_def by (rule foldl_cuts_killed)
  have "killed_nodes (foldl (\<lambda>net b. cut a b net) net bs) = killed_nodes net" for a net bs
    using foldl_cuts_killed [of "\<lambda>_. True" a net bs] by simp
  then have "killed_nodes (foldl (\<lambda>net a. foldl (\<lambda>net b. cut a b net) net bs) net as) =
      killed_nodes net" for as bs net
    by (induction as arbitrary: net) simp_all
  then show "killed_nodes (split_brain net all) = killed_nodes net"
    by (simp add: split_brain_def Let_def)
qed (simp add: heal_all_def)

section \<open>Properties\<close>

text \<open>
  Isolating a node in a healed network cuts it off from every other node, in both directions,
  and leaves every link between other nodes as it was.
\<close>

lemma isolate_node_cuts_off:
  assumes "n \<in> set all" "x \<in> set all" "y \<in> set all"
  shows "is_partitioned (isolate_node (heal_all net) n all) x y \<longleftrightarrow> (x = n) \<noteq> (y = n)"
  using assms by (auto simp: isolate_node_partitioned)

text \<open>
  C21. A split brain in a healed network cuts exactly the links between the two halves of the node
  list: two distinct positions are cut off from each other when one lies in the first half and the
  other in the second, and otherwise not.
\<close>

theorem split_brain_halves:
  assumes "distinct all" "i < length all" "j < length all"
  shows "is_partitioned (split_brain (heal_all net) all) (all ! i) (all ! j) \<longleftrightarrow>
           (i < length all div 2) \<noteq> (j < length all div 2)"
proof -
  let ?m = "length all div 2"
  have A: "all ! k \<in> set (take ?m all) \<longleftrightarrow> k < ?m" if "k < length all" for k
    using assms(1) that by (auto simp: in_set_conv_nth nth_eq_iff_index_eq)
  moreover have "all ! k \<in> set (drop ?m all) \<longleftrightarrow> \<not> k < ?m" if "k < length all" for k
  proof -
    have "set (take ?m all) \<union> set (drop ?m all) = set all"
      by (metis append_take_drop_id set_append)
    moreover have "set (take ?m all) \<inter> set (drop ?m all) = {}"
      using assms(1) by (simp add: set_take_disj_set_drop_if_distinct)
    moreover have "all ! k \<in> set all" using that by simp
    ultimately show ?thesis using A [OF that] by blast
  qed
  ultimately show ?thesis using assms(2,3) by (auto simp: split_brain_partitioned Let_def)
qed

theorem split_brain_halves_witness:
  "is_partitioned (split_brain (heal_all simulator_new) [''n0'', ''n1'', ''n2'']) ''n0'' ''n2'' \<and>
   \<not> is_partitioned (split_brain (heal_all simulator_new) [''n0'', ''n1'', ''n2'']) ''n1'' ''n2''"
  using split_brain_halves [of "[''n0'', ''n1'', ''n2'']" 0 2 simulator_new]
    split_brain_halves [of "[''n0'', ''n1'', ''n2'']" 1 2 simulator_new]
  by simp

end
