(* ===== verification/Checker.thy ===== *)
theory Checker
  imports Linearizability
begin

text \<open>
  The linearizability checker of \<open>src/bin/jepsen_harness.rs\<close>: the history, the key-value model, the
  pairing of invocations and completions, and the backtracking search. The search is proved to decide
  \<open>linearizable\<close> (up to its depth limit of 100), and the whole check to decide linearizability of
  the paired operations, through the locality of \<open>keyed_object\<close>.
\<close>

section \<open>History and model\<close>

record 'j history_entry =
  he_id :: u64
  event_type :: string
  client_id :: nat
  he_op :: string
  he_key :: string
  he_value :: "'j option"
  he_cas_from :: "'j option"
  he_cas_to :: "'j option"
  time_ns :: nat

record 'j linear_op =
  lo_id :: u64
  op_type :: string
  lo_key :: string
  lo_value :: "'j option"
  lo_result :: "'j option"
  lo_cas_from :: "'j option"
  lo_cas_to :: "'j option"
  cas_ok :: bool
  invoke_time :: nat
  complete_time :: nat

record 'j kv_model =
  model_data :: "string \<rightharpoonup> 'j"

definition kv_model_new :: "'j kv_model" where
  "kv_model_new = \<lparr>model_data = Map.empty\<rparr>"

definition kv_model_apply :: "'j kv_model \<Rightarrow> 'j linear_op \<Rightarrow> ('j kv_model \<times> bool) res" where
  "kv_model_apply m x =
     (if op_type x = ''write'' then
        (case unwrap (lo_value x) of
           Inl p \<Rightarrow> Inl p
         | Inr v \<Rightarrow> Inr (m\<lparr>model_data := (model_data m)(lo_key x \<mapsto> v)\<rparr>, True))
      else if op_type x = ''read'' then
        Inr (m, case (model_data m (lo_key x), lo_result x) of
                  (None, None) \<Rightarrow> True
                | (Some v, Some e) \<Rightarrow> v = e
                | (None, Some _) \<Rightarrow> False
                | (Some _, None) \<Rightarrow> False)
      else if op_type x = ''cas'' then
        (case unwrap (lo_cas_from x) of
           Inl p \<Rightarrow> Inl p
         | Inr old \<Rightarrow>
        (case unwrap (lo_cas_to x) of
           Inl p \<Rightarrow> Inl p
         | Inr new \<Rightarrow>
             (if cas_ok x
              then (case model_data m (lo_key x) of
                      Some v \<Rightarrow>
                        if v = old then Inr (m\<lparr>model_data := (model_data m)(lo_key x \<mapsto> new)\<rparr>, True)
                        else Inr (m, False)
                    | None \<Rightarrow> Inr (m, False))
              else (case model_data m (lo_key x) of
                      Some v \<Rightarrow> if v = old then Inr (m, False) else Inr (m, True)
                    | None \<Rightarrow> Inr (m, True)))))
      else Inr (m, False))"

section \<open>The search\<close>

text \<open>
  \<open>try_linearize\<close> and its loop over the candidates. Each recursive call is on a list one shorter, and
  the loop moves towards the end of the list.
\<close>

function try_linearize :: "'j linear_op list \<Rightarrow> 'j kv_model \<Rightarrow> nat \<Rightarrow> bool res"
  and try_from :: "'j linear_op list \<Rightarrow> 'j kv_model \<Rightarrow> nat \<Rightarrow> nat \<Rightarrow> nat \<Rightarrow> bool res" where
  "try_linearize remaining m depth =
     (if remaining = [] then Inr True
      else if depth > 100 then Inr True
      else try_from remaining m depth (Min (complete_time ` set remaining)) 0)"
| "try_from remaining m depth min_complete i =
     (if i < length remaining
      then (if invoke_time (remaining ! i) \<le> min_complete
            then (case kv_model_apply m (remaining ! i) of
                    Inl p \<Rightarrow> Inl p
                  | Inr (m', matches) \<Rightarrow>
                      if matches
                      then (case try_linearize (remove_at i remaining) m' (Suc depth) of
                              Inl p \<Rightarrow> Inl p
                            | Inr found \<Rightarrow>
                                if found then Inr True
                                else try_from remaining m depth min_complete (Suc i))
                      else try_from remaining m depth min_complete (Suc i))
            else try_from remaining m depth min_complete (Suc i))
      else Inr False)"
  by pat_completeness auto
termination
  by (relation "measures
        [\<lambda>s. case s of Inl (r, m, d) \<Rightarrow> length r | Inr (r, m, d, c, i) \<Rightarrow> length r,
         \<lambda>s. case s of Inl (r, m, d) \<Rightarrow> Suc (length r) | Inr (r, m, d, c, i) \<Rightarrow> length r - i]")
    (auto simp: remove_at_def)

declare try_linearize.simps [simp del] try_from.simps [simp del]

lemma try_linearize_Nil [simp]: "try_linearize [] m depth = Inr True"
  by (simp add: try_linearize.simps)

section \<open>Pairing the history\<close>

text \<open>\<open>u128::MAX\<close>: the completion time of an indeterminate operation.\<close>

definition u128_max :: nat where
  "u128_max = 2 ^ 128 - 1"

definition completed_op ::
    "'j history_entry \<Rightarrow> 'j history_entry \<Rightarrow> 'j option \<Rightarrow> bool \<Rightarrow> nat \<Rightarrow> 'j linear_op" where
  "completed_op invoke e result ok at =
     \<lparr>lo_id = he_id e, op_type = he_op invoke, lo_key = he_key invoke, lo_value = he_value invoke,
      lo_result = result, lo_cas_from = he_cas_from invoke, lo_cas_to = he_cas_to invoke,
      cas_ok = ok, invoke_time = time_ns invoke, complete_time = at\<rparr>"

definition pair_entry ::
    "'j linear_op list \<times> (u64 \<rightharpoonup> 'j history_entry) \<Rightarrow> 'j history_entry
       \<Rightarrow> 'j linear_op list \<times> (u64 \<rightharpoonup> 'j history_entry)" where
  "pair_entry st e =
     (let (ops, invocations) = st
      in if event_type e = ''invoke'' then (ops, invocations(he_id e \<mapsto> e))
         else if event_type e = ''ok'' then
           (case invocations (he_id e) of
              Some invoke \<Rightarrow>
                (ops @ [completed_op invoke e (he_value e) True (time_ns e)],
                 invocations(he_id e := None))
            | None \<Rightarrow> (ops, invocations))
         else if event_type e = ''fail'' then
           (case invocations (he_id e) of
              Some invoke \<Rightarrow>
                (ops @ [completed_op invoke e (he_value e) False (time_ns e)],
                 invocations(he_id e := None))
            | None \<Rightarrow> (ops, invocations))
         else if event_type e = ''info'' then
           (case invocations (he_id e) of
              Some invoke \<Rightarrow>
                (ops @ [completed_op invoke e None True u128_max], invocations(he_id e := None))
            | None \<Rightarrow> (ops, invocations))
         else (ops, invocations))"

definition paired_ops :: "'j history_entry list \<Rightarrow> 'j linear_op list" where
  "paired_ops history = fst (foldl pair_entry ([], Map.empty) history)"

text \<open>\<open>by_key.entry(key).or_default().push(op)\<close>, the groups in the order of their first operation.\<close>

fun push_group :: "(string \<times> 'v list) list \<Rightarrow> string \<Rightarrow> 'v \<Rightarrow> (string \<times> 'v list) list" where
  "push_group [] k v = [(k, [v])]"
| "push_group ((k', vs) # gs) k v =
     (if k' = k then (k', vs @ [v]) # gs else (k', vs) # push_group gs k v)"

definition group_by_key :: "'j linear_op list \<Rightarrow> (string \<times> 'j linear_op list) list" where
  "group_by_key ops = foldl (\<lambda>gs x. push_group gs (lo_key x) x) [] ops"

section \<open>The check\<close>

text \<open>
  The message of a violation, and the loop over the groups. The order in which a \<open>HashMap\<close> is
  iterated is not determined: \<open>iter\<close> arranges the groups.
\<close>

definition violation_msg :: "string \<Rightarrow> nat \<Rightarrow> string" where
  "violation_msg k n =
     ''Linearizability violation found for key '' @ [CHR 0x27] @ k @ [CHR 0x27] @ '' with '' @
     show_nat n @ '' operations''"

fun check_groups :: "(string \<times> 'j linear_op list) list \<Rightarrow> (string + unit) res" where
  "check_groups [] = Inr (Inr ())"
| "check_groups ((k, key_ops) # gs) =
     (case try_linearize key_ops kv_model_new 0 of
        Inl p \<Rightarrow> Inl p
      | Inr found \<Rightarrow>
          if \<not> found then Inr (Inl (violation_msg k (length key_ops))) else check_groups gs)"

definition check_linearizability ::
    "((string \<times> 'j linear_op list) list \<Rightarrow> (string \<times> 'j linear_op list) list)
       \<Rightarrow> 'j history_entry list \<Rightarrow> (string + unit) res" where
  "check_linearizability iter history =
     (let ops = sort_key invoke_time (paired_ops history)
      in if ops = [] then Inr (Inr ()) else check_groups (iter (group_by_key ops)))"

section \<open>The model as an object\<close>

text \<open>Operations the model applies without a panic.\<close>

definition wf_op :: "'j linear_op \<Rightarrow> bool" where
  "wf_op x \<longleftrightarrow>
     (op_type x = ''write'' \<longrightarrow> lo_value x \<noteq> None) \<and>
     (op_type x = ''cas'' \<longrightarrow> lo_cas_from x \<noteq> None \<and> lo_cas_to x \<noteq> None)"

definition model_obj :: "'j kv_model \<Rightarrow> 'j linear_op \<Rightarrow> 'j kv_model \<times> bool" where
  "model_obj m x = (case kv_model_apply m x of Inl _ \<Rightarrow> (m, False) | Inr r \<Rightarrow> r)"

abbreviation kv_linearizable :: "'j linear_op list \<Rightarrow> bool" where
  "kv_linearizable ops \<equiv> linearizable model_obj invoke_time complete_time kv_model_new ops"

lemma kv_model_apply_wf: "wf_op x \<Longrightarrow> kv_model_apply m x = Inr (model_obj m x)"
  by (auto simp: model_obj_def kv_model_apply_def wf_op_def split: option.splits if_splits)

interpretation kvm: keyed_object model_obj lo_key model_data
  by unfold_locales
    (auto simp: model_obj_def kv_model_apply_def split: option.splits sum.splits if_splits)

section \<open>Correctness of the search\<close>

text \<open>The loop finds a candidate exactly when there is one from its position on.\<close>

lemma try_from_eq:
  assumes wf: "\<forall>x\<in>set rem. wf_op x"
    and rec: "\<And>i. i < length rem \<Longrightarrow>
        try_linearize (remove_at i rem) (fst (model_obj m (rem ! i))) (Suc depth) = Inr (found i)"
  shows "try_from rem m depth mc i =
     Inr (\<exists>j\<ge>i. j < length rem \<and> invoke_time (rem ! j) \<le> mc \<and> snd (model_obj m (rem ! j)) \<and> found j)"
proof (induction "length rem - i" arbitrary: i)
  case 0
  then show ?case by (subst try_from.simps) auto
next
  case (Suc k)
  then have i: "i < length rem" by simp
  define Q where "Q j \<longleftrightarrow>
    j < length rem \<and> invoke_time (rem ! j) \<le> mc \<and> snd (model_obj m (rem ! j)) \<and> found j" for j
  from Suc have IH: "try_from rem m depth mc (Suc i) = Inr (\<exists>j\<ge>Suc i. Q j)" by (simp add: Q_def)
  have "kv_model_apply m (rem ! i) = Inr (model_obj m (rem ! i))"
    using wf i by (simp add: kv_model_apply_wf)
  then have "try_from rem m depth mc i = Inr (Q i \<or> (\<exists>j\<ge>Suc i. Q j))"
    using i by (subst try_from.simps) (simp add: IH rec case_prod_beta Q_def)
  also have "(Q i \<or> (\<exists>j\<ge>Suc i. Q j)) \<longleftrightarrow> (\<exists>j\<ge>i. Q j)" by (rule ex_ge_Suc [symmetric])
  finally show ?case unfolding Q_def .
qed

text \<open>The search never panics on well-formed operations.\<close>

lemma try_linearize_total:
  assumes "\<forall>x\<in>set rem. wf_op x"
  shows "\<exists>b. try_linearize rem m depth = Inr b"
  using assms
proof (induction "length rem" arbitrary: rem m depth)
  case 0
  then show ?case by (auto simp: try_linearize.simps)
next
  case (Suc k)
  have "\<exists>b. try_linearize (remove_at i rem) (fst (model_obj m (rem ! i))) (Suc depth) = Inr b"
    if "i < length rem" for i
    using that Suc set_remove_at_subset [of i rem] by (intro Suc.hyps(1)) auto
  then obtain found where "\<And>i. i < length rem \<Longrightarrow>
      try_linearize (remove_at i rem) (fst (model_obj m (rem ! i))) (Suc depth) = Inr (found i)"
    by metis
  from try_from_eq [OF Suc.prems this] show ?case by (auto simp: try_linearize.simps)
qed

lemma Min_complete_iff:
  "rem \<noteq> [] \<Longrightarrow> t \<le> Min (complete_time ` set rem) \<longleftrightarrow> (\<forall>y\<in>set rem. t \<le> complete_time y)"
  by simp

text \<open>Within the depth limit the search decides linearizability.\<close>

lemma try_linearize_correct:
  assumes "\<forall>x\<in>set rem. wf_op x" "depth + length rem \<le> 101"
  shows "try_linearize rem m depth =
           Inr (linearizable model_obj invoke_time complete_time m rem)"
  using assms
proof (induction "length rem" arbitrary: rem m depth)
  case 0
  then show ?case by (simp add: try_linearize.simps)
next
  case (Suc k)
  then have ne: "rem \<noteq> []" "\<not> depth > 100" by auto
  have "try_linearize (remove_at i rem) (fst (model_obj m (rem ! i))) (Suc depth) =
      Inr (linearizable model_obj invoke_time complete_time (fst (model_obj m (rem ! i)))
        (remove_at i rem))" if "i < length rem" for i
    using that Suc set_remove_at_subset [of i rem] by (intro Suc.hyps(1)) auto
  from try_from_eq [OF Suc.prems(1) this] ne show ?case
    by (simp add: try_linearize.simps linearizable_step [OF ne(1)] Min_complete_iff [OF ne(1)] conj_ac)
qed

text \<open>With or without the limit it never rejects a linearizable history.\<close>

lemma try_linearize_complete:
  assumes "\<forall>x\<in>set rem. wf_op x" "linearizable model_obj invoke_time complete_time m rem"
  shows "try_linearize rem m depth = Inr True"
  using assms
proof (induction "length rem" arbitrary: rem m depth)
  case 0
  then show ?case by (simp add: try_linearize.simps)
next
  case (Suc k)
  then have ne: "rem \<noteq> []" by auto
  let ?rec = "\<lambda>i. try_linearize (remove_at i rem) (fst (model_obj m (rem ! i))) (Suc depth)"
  have wf: "\<forall>x\<in>set (remove_at i rem). wf_op x" for i
    using Suc.prems(1) set_remove_at_subset [of i rem] by blast
  have "\<forall>i. \<exists>b. ?rec i = Inr b" using try_linearize_total [OF wf] by blast
  then obtain found where found: "\<And>i. ?rec i = Inr (found i)" by metis
  obtain i where i: "i < length rem" "\<forall>y\<in>set rem. invoke_time (rem ! i) \<le> complete_time y"
    "snd (model_obj m (rem ! i))"
    "linearizable model_obj invoke_time complete_time (fst (model_obj m (rem ! i))) (remove_at i rem)"
    using linearizable_step [OF ne, THEN iffD1, OF Suc.prems(2)] by (elim exE conjE)
  have "k = length (remove_at i rem)" using i(1) Suc.hyps(2) by simp
  from Suc.hyps(1) [OF this wf i(4)] have "found i" using found [of i] by simp
  with i try_from_eq [OF Suc.prems(1) found] ne show ?case
    by (auto simp: try_linearize.simps Min_complete_iff [OF ne])
qed

section \<open>Grouping by key\<close>

lemma push_group_keys: "set (map fst (push_group gs k v)) = insert k (set (map fst gs))"
  by (induction gs k v rule: push_group.induct) auto

lemma push_group_distinct: "distinct (map fst gs) \<Longrightarrow> distinct (map fst (push_group gs k v))"
proof (induction gs k v rule: push_group.induct)
  case (2 k' vs gs k v)
  then show ?case using push_group_keys [of gs k v] by auto
qed simp

lemma push_group_lookup:
  "map_of (push_group gs k v) k' =
     (if k' = k then Some ((case map_of gs k of None \<Rightarrow> [] | Some vs \<Rightarrow> vs) @ [v])
      else map_of gs k')"
  by (induction gs k v rule: push_group.induct) auto

lemma group_by_key_snoc: "group_by_key (xs @ [x]) = push_group (group_by_key xs) (lo_key x) x"
  by (simp add: group_by_key_def)

lemma group_by_key_distinct: "distinct (map fst (group_by_key ops))"
  by (induction ops rule: rev_induct)
    (simp_all add: group_by_key_snoc push_group_distinct, simp add: group_by_key_def)

lemma group_by_key_lookup:
  "map_of (group_by_key ops) k =
     (let xs = filter (\<lambda>x. lo_key x = k) ops in if xs = [] then None else Some xs)"
proof (induction ops rule: rev_induct)
  case Nil
  then show ?case by (simp add: group_by_key_def)
next
  case (snoc x xs)
  then show ?case
    by (cases "lo_key x = k") (auto simp: group_by_key_snoc push_group_lookup Let_def)
qed

text \<open>The groups are the keys' operations, each once.\<close>

lemma group_by_key_set:
  "(k, xs) \<in> set (group_by_key ops) \<longleftrightarrow> xs = filter (\<lambda>x. lo_key x = k) ops \<and> xs \<noteq> []"
proof -
  have "(k, xs) \<in> set (group_by_key ops) \<longleftrightarrow> map_of (group_by_key ops) k = Some xs"
    using group_by_key_distinct by (auto intro: map_of_is_SomeI dest: map_of_SomeD)
  then show ?thesis by (auto simp: group_by_key_lookup Let_def)
qed

section \<open>Correctness of the check\<close>

lemma check_groups_total:
  assumes "\<forall>(k, xs)\<in>set gs. \<forall>x\<in>set xs. wf_op x"
  shows "check_groups gs = Inr (Inr ()) \<longleftrightarrow>
           (\<forall>(k, xs)\<in>set gs. try_linearize xs kv_model_new 0 = Inr True)"
    and "\<exists>r. check_groups gs = Inr r"
proof -
  have total: "\<exists>b. try_linearize xs kv_model_new 0 = Inr b" if "(k, xs) \<in> set gs" for k xs
    using that assms by (intro try_linearize_total) auto
  from total show "check_groups gs = Inr (Inr ()) \<longleftrightarrow>
           (\<forall>(k, xs)\<in>set gs. try_linearize xs kv_model_new 0 = Inr True)"
  proof (induction gs)
    case (Cons g gs)
    obtain k xs where g: "g = (k, xs)" by fastforce
    obtain b where b: "try_linearize xs kv_model_new 0 = Inr b"
      using Cons.prems [of k xs] by (auto simp: g)
    have "check_groups gs = Inr (Inr ()) \<longleftrightarrow>
        (\<forall>(k, xs)\<in>set gs. try_linearize xs kv_model_new 0 = Inr True)"
      using Cons.prems by (intro Cons.IH) auto
    then show ?case by (cases b) (simp_all add: g b)
  qed simp
  from total show "\<exists>r. check_groups gs = Inr r"
  proof (induction gs)
    case (Cons g gs)
    obtain k xs where g: "g = (k, xs)" by fastforce
    obtain b where b: "try_linearize xs kv_model_new 0 = Inr b"
      using Cons.prems [of k xs] by (auto simp: g)
    have "\<exists>r. check_groups gs = Inr r" using Cons.prems by (intro Cons.IH) auto
    then show ?case by (cases b) (simp_all add: g b)
  qed auto
qed

lemma set_sort_ops [simp]: "set (sort_key invoke_time ops) = set ops"
  by simp

text \<open>The check on paired operations, group by group.\<close>

lemma check_linearizability_groups:
  assumes "\<forall>x\<in>set (paired_ops h). wf_op x" "\<And>gs. mset (iter gs) = mset gs"
  shows "check_linearizability iter h = Inr (Inr ()) \<longleftrightarrow>
     (\<forall>k. try_linearize (filter (\<lambda>x. lo_key x = k) (sort_key invoke_time (paired_ops h)))
            kv_model_new 0 = Inr True)"
    and "\<exists>r. check_linearizability iter h = Inr r"
proof -
  let ?ops = "sort_key invoke_time (paired_ops h)"
  have it: "set (iter (group_by_key ?ops)) = set (group_by_key ?ops)"
    using assms(2) by (rule mset_eq_setD)
  have wf: "\<forall>(k, xs)\<in>set (iter (group_by_key ?ops)). \<forall>x\<in>set xs. wf_op x"
    using assms(1) it by (auto simp: group_by_key_set)
  show "\<exists>r. check_linearizability iter h = Inr r"
    using check_groups_total(2) [OF wf] by (simp add: check_linearizability_def Let_def)
  show "check_linearizability iter h = Inr (Inr ()) \<longleftrightarrow>
     (\<forall>k. try_linearize (filter (\<lambda>x. lo_key x = k) ?ops) kv_model_new 0 = Inr True)"
  proof (cases "?ops = []")
    case True
    then show ?thesis by (simp add: check_linearizability_def Let_def try_linearize.simps)
  next
    case False
    then have "check_linearizability iter h = Inr (Inr ()) \<longleftrightarrow>
        (\<forall>(k, xs)\<in>set (group_by_key ?ops). try_linearize xs kv_model_new 0 = Inr True)"
      by (simp add: check_linearizability_def Let_def check_groups_total(1) [OF wf] it)
    also have "\<dots> \<longleftrightarrow>
        (\<forall>k. try_linearize (filter (\<lambda>x. lo_key x = k) ?ops) kv_model_new 0 = Inr True)"
      (is "?G \<longleftrightarrow> (\<forall>k. ?T k)")
    proof
      assume g: ?G
      show "\<forall>k. ?T k"
      proof
        fix k
        show "?T k"
        proof (cases "filter (\<lambda>x. lo_key x = k) ?ops = []")
          case True
          then show ?thesis by (simp only: try_linearize_Nil)
        next
          case False
          then have "(k, filter (\<lambda>x. lo_key x = k) ?ops) \<in> set (group_by_key ?ops)"
            by (simp only: group_by_key_set) simp
          with g show ?thesis by blast
        qed
      qed
    next
      assume "\<forall>k. ?T k"
      then show ?G by (auto simp: group_by_key_set)
    qed
    finally show ?thesis .
  qed
qed

text \<open>The operations on one key, before and after sorting.\<close>

lemma kv_linearizable_sort:
  "kv_linearizable (filter P (sort_key invoke_time ops)) = kv_linearizable (filter P ops)"
  by (rule linearizable_mset) simp

lemma check_sound_complete:
  assumes "\<forall>x\<in>set (paired_ops h). wf_op x" "\<And>gs. mset (iter gs) = mset gs"
    and "\<forall>k. length (filter (\<lambda>x. lo_key x = k) (paired_ops h)) \<le> 101"
  shows "check_linearizability iter h = Inr (Inr ()) \<longleftrightarrow> kv_linearizable (paired_ops h)"
proof -
  let ?ops = "sort_key invoke_time (paired_ops h)"
  have found: "try_linearize (filter (\<lambda>x. lo_key x = k) ?ops) kv_model_new 0 =
      Inr (kv_linearizable (filter (\<lambda>x. lo_key x = k) (paired_ops h)))" for k
  proof -
    have "length (filter (\<lambda>x. lo_key x = k) ?ops) = length (filter (\<lambda>x. lo_key x = k) (paired_ops h))"
      by (metis filter_sort length_sort)
    then have "try_linearize (filter (\<lambda>x. lo_key x = k) ?ops) kv_model_new 0 =
        Inr (kv_linearizable (filter (\<lambda>x. lo_key x = k) ?ops))"
      using assms(1,3) by (intro try_linearize_correct) auto
    then show ?thesis by (simp only: kv_linearizable_sort)
  qed
  have "check_linearizability iter h = Inr (Inr ()) \<longleftrightarrow>
      (\<forall>k. kv_linearizable (filter (\<lambda>x. lo_key x = k) (paired_ops h)))"
    by (simp only: check_linearizability_groups(1) [OF assms(1,2)] found sum.inject eq_True)
  also have "\<dots> \<longleftrightarrow> kv_linearizable (paired_ops h)" by (rule kvm.locality [symmetric])
  finally show ?thesis .
qed

text \<open>No false alarm, whatever the size of the history.\<close>

lemma check_complete:
  assumes "\<forall>x\<in>set (paired_ops h). wf_op x" "\<And>gs. mset (iter gs) = mset gs"
    and "kv_linearizable (paired_ops h)"
  shows "check_linearizability iter h = Inr (Inr ())"
proof -
  let ?ops = "sort_key invoke_time (paired_ops h)"
  have "try_linearize (filter (\<lambda>x. lo_key x = k) ?ops) kv_model_new 0 = Inr True" for k
  proof (rule try_linearize_complete)
    show "\<forall>x\<in>set (filter (\<lambda>x. lo_key x = k) ?ops). wf_op x" using assms(1) by auto
    show "kv_linearizable (filter (\<lambda>x. lo_key x = k) ?ops)"
      using kvm.locality [THEN iffD1, OF assms(3)] by (simp only: kv_linearizable_sort)
  qed
  then show ?thesis using check_linearizability_groups(1) [OF assms(1,2)] by blast
qed

section \<open>What the check can miss\<close>

text \<open>
  Beyond depth 100 the search answers yes without looking further: a legal sequence of 101
  operations in front hides whatever follows.
\<close>

lemma try_linearize_gives_up:
  assumes "\<forall>x\<in>set (xs @ ys). wf_op x" "legal model_obj m xs"
    and "\<forall>i<length xs. \<forall>y\<in>set (drop i (xs @ ys)). invoke_time (xs ! i) \<le> complete_time y"
    and "101 \<le> depth + length xs"
  shows "try_linearize (xs @ ys) m depth = Inr True"
  using assms
proof (induction xs arbitrary: m depth)
  case Nil
  then show ?case by (subst try_linearize.simps) simp
next
  case (Cons x xs)
  let ?rem = "x # xs @ ys"
  let ?rec = "\<lambda>i. try_linearize (remove_at i ?rem) (fst (model_obj m (?rem ! i))) (Suc depth)"
  have wf: "\<forall>z\<in>set ?rem. wf_op z" using Cons.prems(1) by simp
  then have "\<forall>z\<in>set (remove_at i ?rem). wf_op z" for i
    using set_remove_at_subset [of i ?rem] by blast
  then have "\<forall>i. \<exists>b. ?rec i = Inr b" using try_linearize_total by blast
  then obtain found where found: "\<And>i. ?rec i = Inr (found i)" by metis
  have "try_linearize (xs @ ys) (fst (model_obj m x)) (Suc depth) = Inr True"
  proof (rule Cons.IH)
    show "\<forall>i<length xs. \<forall>y\<in>set (drop i (xs @ ys)). invoke_time (xs ! i) \<le> complete_time y"
      using Cons.prems(3) by (metis Suc_less_eq append_Cons drop_Suc_Cons length_Cons nth_Cons_Suc)
  qed (use Cons.prems in simp_all)
  then have "found 0" using found [of 0] by (simp add: remove_at_def)
  moreover have "invoke_time x \<le> Min (complete_time ` set ?rem)"
    using Cons.prems(3) by (subst Min_complete_iff) auto
  moreover have "snd (model_obj m x)" using Cons.prems(2) by simp
  ultimately have "\<exists>j\<ge>0. j < length ?rem \<and> invoke_time (?rem ! j) \<le> Min (complete_time ` set ?rem) \<and>
      snd (model_obj m (?rem ! j)) \<and> found j"
    by (intro exI [of _ 0]) simp
  with try_from_eq [OF wf found] have
    "try_from ?rem m depth (Min (complete_time ` set ?rem)) 0 = Inr True"
    by simp
  then show ?case by (simp add: try_linearize.simps)
qed

text \<open>In a legal sequence, a value that is read was in the model or was written.\<close>

lemma model_obj_values:
  assumes "model_data (fst (model_obj m x)) k = Some v"
  shows "model_data m k = Some v \<or> lo_value x = Some v \<or> lo_cas_to x = Some v"
  using assms
  by (auto simp: model_obj_def kv_model_apply_def expect_def split: option.splits if_splits sum.splits)

lemma legal_reads_written:
  assumes "legal model_obj m xs" "x \<in> set xs" "op_type x = ''read''" "lo_result x = Some v"
  shows "(\<exists>k. model_data m k = Some v) \<or> (\<exists>y\<in>set xs. lo_value y = Some v \<or> lo_cas_to y = Some v)"
  using assms
proof (induction xs arbitrary: m)
  case Nil
  then show ?case by simp
next
  case (Cons z zs)
  show ?case
  proof (cases "x = z")
    case True
    with Cons.prems show ?thesis
      by (auto simp: model_obj_def kv_model_apply_def split: option.splits)
  next
    case False
    with Cons have "(\<exists>k. model_data (fst (model_obj m z)) k = Some v) \<or>
        (\<exists>y\<in>set zs. lo_value y = Some v \<or> lo_cas_to y = Some v)" by auto
    with model_obj_values show ?thesis by fastforce
  qed
qed

text \<open>A compare-and-swap that succeeds in a legal sequence swaps a value that was written.\<close>

lemma legal_swaps_written:
  assumes "legal model_obj m xs" "x \<in> set xs" "op_type x = ''cas''" "cas_ok x" "lo_cas_from x = Some v"
  shows "(\<exists>k. model_data m k = Some v) \<or> (\<exists>y\<in>set xs. lo_value y = Some v \<or> lo_cas_to y = Some v)"
  using assms
proof (induction xs arbitrary: m)
  case (Cons z zs)
  show ?case
  proof (cases "z = x")
    case True
    with Cons.prems have "snd (model_obj m x)" by simp
    with Cons.prems(3-5) show ?thesis
      by (auto simp: model_obj_def kv_model_apply_def expect_def split: option.splits if_splits)
  next
    case False
    with Cons have "(\<exists>k. model_data (fst (model_obj m z)) k = Some v) \<or>
        (\<exists>y\<in>set zs. lo_value y = Some v \<or> lo_cas_to y = Some v)" by auto
    with model_obj_values show ?thesis by fastforce
  qed
qed simp

text \<open>A key that holds a value keeps one, so no read after it finds the key empty.\<close>

lemma model_obj_keeps_key: "model_data m k \<noteq> None \<Longrightarrow> model_data (fst (model_obj m x)) k \<noteq> None"
  by (auto simp: model_obj_def kv_model_apply_def expect_def split: option.splits if_splits sum.splits)

lemma legal_no_blank_read:
  assumes "legal model_obj m xs" "x \<in> set xs" "op_type x = ''read''" "lo_result x = None"
  shows "model_data m (lo_key x) = None"
  using assms
proof (induction xs arbitrary: m)
  case (Cons z zs)
  show ?case
  proof (cases "z = x")
    case True
    with Cons.prems show ?thesis
      by (auto simp: model_obj_def kv_model_apply_def split: option.splits)
  next
    case False
    with Cons have "model_data (fst (model_obj m z)) (lo_key x) = None" by auto
    with model_obj_keeps_key show ?thesis by blast
  qed
qed simp

lemma blank_read_after_write:
  assumes "legal model_obj m xs" "rt_ordered invoke_time complete_time xs" "y \<in> set xs" "x \<in> set xs"
    and "op_type y = ''write''" "lo_key y = lo_key x" "complete_time y < invoke_time x"
    and "op_type x = ''read''" "lo_result x = None"
  shows False
  using assms
proof (induction xs arbitrary: m)
  case (Cons z zs)
  have "z \<noteq> x" using Cons.prems(2,3,7) by auto
  with Cons.prems(4) have x: "x \<in> set zs" by simp
  show ?case
  proof (cases "z = y")
    case True
    have "snd (model_obj m y)" using Cons.prems(1) True by simp
    with Cons.prems(5,6) have "model_data (fst (model_obj m y)) (lo_key x) \<noteq> None"
      by (auto simp: model_obj_def kv_model_apply_def expect_def split: option.splits)
    moreover have "legal model_obj (fst (model_obj m y)) zs" using Cons.prems(1) True by simp
    from legal_no_blank_read [OF this x Cons.prems(8,9)]
    have "model_data (fst (model_obj m y)) (lo_key x) = None" .
    ultimately show ?thesis by simp
  next
    case False
    with Cons x show ?thesis by auto
  qed
qed simp

text \<open>An indeterminate entry is paired with its invocation, as a success without a result.\<close>

lemma pair_entry_grows: "set (fst st) \<subseteq> set (fst (foldl pair_entry st h))"
proof (induction h arbitrary: st)
  case (Cons e h)
  have "set (fst st) \<subseteq> set (fst (pair_entry st e))"
    by (auto simp: pair_entry_def case_prod_beta split: option.splits)
  with Cons [of "pair_entry st e"] show ?case by auto
qed simp

lemma pair_entry_other:
  "\<forall>x\<in>set h. he_id x \<noteq> i \<Longrightarrow> snd (foldl pair_entry st h) i = snd st i"
proof (induction h arbitrary: st)
  case (Cons e h)
  then have "snd (pair_entry st e) i = snd st i"
    by (auto simp: pair_entry_def case_prod_beta split: option.splits)
  with Cons show ?case by simp
qed simp

lemma paired_info:
  assumes "event_type iv = ''invoke''" "event_type e = ''info''" "he_id e = he_id iv"
    and "\<forall>x\<in>set h2. he_id x \<noteq> he_id iv"
  shows "completed_op iv e None True u128_max \<in> set (paired_ops (h1 @ iv # h2 @ e # h3))"
proof -
  let ?s1 = "pair_entry (foldl pair_entry ([], Map.empty) h1) iv"
  let ?s2 = "foldl pair_entry ?s1 h2"
  have "snd ?s1 (he_id iv) = Some iv" using assms(1) by (simp add: pair_entry_def case_prod_beta)
  then have "snd ?s2 (he_id iv) = Some iv" using pair_entry_other [OF assms(4)] by simp
  then have "completed_op iv e None True u128_max \<in> set (fst (pair_entry ?s2 e))"
    using assms(2,3) by (simp add: pair_entry_def case_prod_beta)
  with pair_entry_grows [of "pair_entry ?s2 e" h3] show ?thesis by (auto simp: paired_ops_def)
qed

text \<open>Within the depth limit a history without a linearization is reported.\<close>

lemma check_rejects:
  assumes "\<forall>x\<in>set (paired_ops h). wf_op x" "\<And>gs. mset (iter gs) = mset gs"
    and "\<forall>k. length (filter (\<lambda>x. lo_key x = k) (paired_ops h)) \<le> 101"
    and "\<not> kv_linearizable (paired_ops h)"
  shows "\<exists>msg. check_linearizability iter h = Inr (Inl msg)"
proof -
  have "check_linearizability iter h \<noteq> Inr (Inr ())"
    using check_sound_complete [OF assms(1-3)] assms(4) by simp
  moreover obtain r where "check_linearizability iter h = Inr r"
    using check_linearizability_groups(2) [OF assms(1,2)] by blast
  ultimately show ?thesis by (cases r) simp_all
qed

section \<open>Properties\<close>

text \<open>A small history: a write of \<open>1\<close>, then a read that returns \<open>r\<close>.\<close>

definition sample_entry ::
    "u64 \<Rightarrow> string \<Rightarrow> string \<Rightarrow> nat option \<Rightarrow> nat \<Rightarrow> nat history_entry" where
  "sample_entry i ty q v t =
     \<lparr>he_id = i, event_type = ty, client_id = 0, he_op = q, he_key = ''k'', he_value = v,
      he_cas_from = None, he_cas_to = None, time_ns = t\<rparr>"

definition sample_history :: "nat option \<Rightarrow> nat history_entry list" where
  "sample_history r =
     [sample_entry 1 ''invoke'' ''write'' (Some 1) 10, sample_entry 1 ''ok'' ''write'' None 20,
      sample_entry 2 ''invoke'' ''read'' None 30, sample_entry 2 ''ok'' ''read'' r 40]"

definition sample_write :: "nat linear_op" where
  "sample_write = \<lparr>lo_id = 1, op_type = ''write'', lo_key = ''k'', lo_value = Some 1,
     lo_result = None, lo_cas_from = None, lo_cas_to = None, cas_ok = True,
     invoke_time = 10, complete_time = 20\<rparr>"

definition sample_read :: "nat option \<Rightarrow> nat linear_op" where
  "sample_read r = \<lparr>lo_id = 2, op_type = ''read'', lo_key = ''k'', lo_value = None,
     lo_result = r, lo_cas_from = None, lo_cas_to = None, cas_ok = True,
     invoke_time = 30, complete_time = 40\<rparr>"

lemma sample_paired: "paired_ops (sample_history r) = [sample_write, sample_read r]"
  by (simp add: paired_ops_def sample_history_def sample_entry_def pair_entry_def completed_op_def
      sample_write_def sample_read_def)

lemma sample_wf: "\<forall>x\<in>set (paired_ops (sample_history r)). wf_op x"
  by (simp add: sample_paired wf_op_def sample_write_def sample_read_def)

text \<open>
  C6. The checker decides linearizability: when no key has more than 101 completed operations, the
  check accepts a history exactly when its paired operations can be put into one sequence, over all
  keys together, that respects real time and is legal for the key-value model.
\<close>

theorem check_decides_linearizability:
  assumes "\<forall>x\<in>set (paired_ops h). wf_op x" "\<And>gs. mset (iter gs) = mset gs"
    and "\<forall>k. length (filter (\<lambda>x. lo_key x = k) (paired_ops h)) \<le> 101"
  shows "check_linearizability iter h = Inr (Inr ()) \<longleftrightarrow>
         linearizable model_obj invoke_time complete_time kv_model_new (paired_ops h)"
  using assms by (rule check_sound_complete)

theorem check_decides_linearizability_witness:
  "check_linearizability id (sample_history (Some 1)) = Inr (Inr ()) \<and>
   linearizable model_obj invoke_time complete_time kv_model_new
     (paired_ops (sample_history (Some 1)))"
proof -
  have "legal model_obj kv_model_new [sample_write, sample_read (Some 1)]"
    by (simp add: model_obj_def kv_model_apply_def sample_write_def sample_read_def kv_model_new_def)
  moreover have "rt_ordered invoke_time complete_time [sample_write, sample_read (Some 1)]"
    by (simp add: sample_write_def sample_read_def)
  ultimately have lin: "linearizable model_obj invoke_time complete_time kv_model_new
      (paired_ops (sample_history (Some 1)))"
    unfolding linearizable_def sample_paired by blast
  have "\<forall>k. length (filter (\<lambda>x. lo_key x = k) (paired_ops (sample_history (Some (1::nat))))) \<le> 101"
    by (simp add: sample_paired)
  from check_decides_linearizability [OF sample_wf _ this, of id] lin show ?thesis by simp
qed

text \<open>
  C9. No false alarms on definite operations: a history whose paired operations are linearizable is
  accepted, whatever its size and whatever the order in which the groups are iterated.
\<close>

theorem check_accepts_linearizable:
  assumes "\<forall>x\<in>set (paired_ops h). wf_op x" "\<And>gs. mset (iter gs) = mset gs"
    and "linearizable model_obj invoke_time complete_time kv_model_new (paired_ops h)"
  shows "check_linearizability iter h = Inr (Inr ())"
  using assms by (rule check_complete)

theorem check_accepts_linearizable_witness:
  "check_linearizability rev (sample_history (Some 1)) = Inr (Inr ())"
proof (rule check_accepts_linearizable [OF sample_wf])
  have "legal model_obj kv_model_new [sample_write, sample_read (Some 1)]"
    by (simp add: model_obj_def kv_model_apply_def sample_write_def sample_read_def kv_model_new_def)
  moreover have "rt_ordered invoke_time complete_time [sample_write, sample_read (Some 1)]"
    by (simp add: sample_write_def sample_read_def)
  ultimately show "linearizable model_obj invoke_time complete_time kv_model_new
      (paired_ops (sample_history (Some 1)))"
    unfolding linearizable_def sample_paired by blast
qed simp

text \<open>
  C20. A read of a value nobody wrote is caught within the depth limit: when no key has more than 101
  completed operations and some completed read returned a value that no completed write and no completed
  compare-and-swap of the history carries, the check reports a violation.
\<close>

theorem check_rejects_unwritten_read:
  assumes "\<forall>x\<in>set (paired_ops h). wf_op x" "\<And>gs. mset (iter gs) = mset gs"
    and "\<forall>k. length (filter (\<lambda>x. lo_key x = k) (paired_ops h)) \<le> 101"
    and "x \<in> set (paired_ops h)" "op_type x = ''read''" "lo_result x = Some v"
    and "\<forall>y\<in>set (paired_ops h). lo_value y \<noteq> Some v \<and> lo_cas_to y \<noteq> Some v"
  shows "\<exists>msg. check_linearizability iter h = Inr (Inl msg)"
proof (rule check_rejects [OF assms(1-3)], rule notI)
  assume "kv_linearizable (paired_ops h)"
  then obtain xs where xs: "mset xs = mset (paired_ops h)" "legal model_obj kv_model_new xs"
    by (auto simp: linearizable_def)
  from mset_eq_setD [OF xs(1)] assms(4,7) have "x \<in> set xs"
    "\<forall>y\<in>set xs. lo_value y \<noteq> Some v \<and> lo_cas_to y \<noteq> Some v" by simp_all
  with legal_reads_written [OF xs(2), of x v] assms(5,6) show False
    by (auto simp: kv_model_new_def)
qed

theorem check_rejects_unwritten_read_witness:
  "\<exists>msg. check_linearizability id (sample_history (Some 5)) = Inr (Inl msg)"
  by (rule check_rejects_unwritten_read [where x = "sample_read (Some 5)" and v = 5, OF sample_wf])
    (simp_all add: sample_paired, simp_all add: sample_write_def sample_read_def)

text \<open>
  A history of \<open>n\<close> reads, one after the other, that find no value, and a last read that returns a
  value nobody wrote.
\<close>

definition blank_read :: "nat \<Rightarrow> nat history_entry list" where
  "blank_read i =
     [sample_entry (of_nat i) ''invoke'' ''read'' None (2 * i),
      sample_entry (of_nat i) ''ok'' ''read'' None (2 * i + 1)]"

definition blank_op :: "nat \<Rightarrow> nat linear_op" where
  "blank_op i = \<lparr>lo_id = of_nat i, op_type = ''read'', lo_key = ''k'', lo_value = None,
     lo_result = None, lo_cas_from = None, lo_cas_to = None, cas_ok = True,
     invoke_time = 2 * i, complete_time = 2 * i + 1\<rparr>"

definition stray_read :: "nat \<Rightarrow> nat history_entry list" where
  "stray_read i =
     [sample_entry (of_nat i) ''invoke'' ''read'' None (2 * i),
      sample_entry (of_nat i) ''ok'' ''read'' (Some 5) (2 * i + 1)]"

definition stray_op :: "nat \<Rightarrow> nat linear_op" where
  "stray_op i = (blank_op i)\<lparr>lo_result := Some 5\<rparr>"

definition stray_history :: "nat \<Rightarrow> nat history_entry list" where
  "stray_history n = concat (map blank_read [0..<n]) @ stray_read n"

lemma blank_read_paired:
  "foldl pair_entry (ops, Map.empty) (blank_read i) = (ops @ [blank_op i], Map.empty)"
  by (simp add: blank_read_def blank_op_def sample_entry_def pair_entry_def completed_op_def)

lemma stray_history_paired: "paired_ops (stray_history n) = map blank_op [0..<n] @ [stray_op n]"
proof -
  have "foldl pair_entry ([], Map.empty) (concat (map blank_read [0..<n])) =
      (map blank_op [0..<n], Map.empty)"
    by (induction n) (simp_all add: blank_read_paired)
  then show ?thesis
    by (simp add: paired_ops_def stray_history_def stray_read_def stray_op_def blank_op_def
        sample_entry_def pair_entry_def completed_op_def)
qed

lemma stray_history_search:
  assumes "101 \<le> n"
  shows "try_linearize (map blank_op [0..<n] @ [stray_op n]) kv_model_new 0 = Inr True"
proof (rule try_linearize_gives_up)
  show "\<forall>x\<in>set (map blank_op [0..<n] @ [stray_op n]). wf_op x"
    by (auto simp: wf_op_def blank_op_def stray_op_def)
  have "model_obj kv_model_new (blank_op i) = (kv_model_new, True)" for i
    by (simp add: model_obj_def kv_model_apply_def blank_op_def kv_model_new_def)
  then have "legal model_obj kv_model_new (map blank_op is)" for "is" by (induction "is") simp_all
  then show "legal model_obj kv_model_new (map blank_op [0..<n])" .
  show "\<forall>i<length (map blank_op [0..<n]).
      \<forall>y\<in>set (drop i (map blank_op [0..<n] @ [stray_op n])).
        invoke_time (map blank_op [0..<n] ! i) \<le> complete_time y"
    by (auto simp: drop_map blank_op_def stray_op_def)
  show "101 \<le> 0 + length (map blank_op [0..<n])" using assms by simp
qed

lemma stray_history_sorted:
  "sort_key invoke_time (map blank_op [0..<n] @ [stray_op n]) = map blank_op [0..<n] @ [stray_op n]"
  by (rule sort_key_id_if_sorted)
    (auto simp: sorted_iff_nth_mono nth_append less_Suc_eq blank_op_def stray_op_def comp_def)

text \<open>
  C22. Beyond its depth limit the check is not sound: with 101 or more sequential operations on a key
  before it, a read of a value that nobody wrote is accepted, although the history has no
  linearization.
\<close>

theorem check_depth_limit_unsound:
  "check_linearizability id (stray_history (101 + n)) = Inr (Inr ()) \<and>
   \<not> linearizable model_obj invoke_time complete_time kv_model_new
       (paired_ops (stray_history (101 + n)))"
proof
  let ?N = "101 + n"
  let ?ops = "map blank_op [0..<?N] @ [stray_op ?N]"
  have wf: "\<forall>x\<in>set (paired_ops (stray_history ?N)). wf_op x"
    by (auto simp: stray_history_paired wf_op_def blank_op_def stray_op_def)
  have "filter (\<lambda>x. lo_key x = k) ?ops = (if k = ''k'' then ?ops else [])" for k
    by (auto simp: filter_map comp_def blank_op_def stray_op_def)
  then have "try_linearize (filter (\<lambda>x. lo_key x = k) (sort_key invoke_time ?ops)) kv_model_new 0
      = Inr True" for k
    by (simp only: stray_history_sorted)
      (simp add: stray_history_search del: map_append upt_Suc upt_rec_numeral)
  then show "check_linearizability id (stray_history ?N) = Inr (Inr ())"
    using check_linearizability_groups(1) [OF wf, of id] by (simp only: stray_history_paired) simp
  show "\<not> kv_linearizable (paired_ops (stray_history ?N))"
  proof
    assume "kv_linearizable (paired_ops (stray_history ?N))"
    then obtain xs where xs: "mset xs = mset ?ops" "legal model_obj kv_model_new xs"
      unfolding linearizable_def stray_history_paired by blast
    have "set xs = set ?ops" using xs(1) by (rule mset_eq_setD)
    then have "stray_op ?N \<in> set xs" "\<forall>y\<in>set xs. lo_value y = None \<and> lo_cas_to y = None"
      by (auto simp: blank_op_def stray_op_def)
    with legal_reads_written [OF xs(2), of "stray_op ?N" 5] show False
      by (auto simp: kv_model_new_def stray_op_def blank_op_def)
  qed
qed

text \<open>A write of \<open>1\<close> that completes and a read whose outcome is indeterminate.\<close>

definition info_history :: "nat history_entry list" where
  "info_history =
     [sample_entry 1 ''invoke'' ''write'' (Some 1) 10, sample_entry 1 ''ok'' ''write'' None 20,
      sample_entry 2 ''invoke'' ''read'' None 30, sample_entry 2 ''info'' ''error'' None 40]"

text \<open>
  C23. Indeterminate operations are checked as definite ones, with at most 101 operations per key. A read
  that is invoked after a completed write of its key and then times out is rejected whatever else
  happened, because its missing result is compared with the model as if it had found no value. A
  compare-and-swap that times out is rejected when nobody has written the value it expects, because it is
  taken to have succeeded, although it may simply have failed.
\<close>

theorem check_rejects_indeterminate:
  assumes "h = h1 @ iv # h2 @ e # h3" "event_type iv = ''invoke''" "event_type e = ''info''"
    and "he_id e = he_id iv" "\<forall>x\<in>set h2. he_id x \<noteq> he_id iv"
    and "\<forall>x\<in>set (paired_ops h). wf_op x" "\<And>gs. mset (iter gs) = mset gs"
    and "\<forall>k. length (filter (\<lambda>x. lo_key x = k) (paired_ops h)) \<le> 101"
    and "(he_op iv = ''read'' \<and> (\<exists>y\<in>set (paired_ops h). op_type y = ''write'' \<and>
             lo_key y = he_key iv \<and> complete_time y < time_ns iv)) \<or>
         (he_op iv = ''cas'' \<and> (\<forall>y\<in>set (paired_ops h). lo_value y \<noteq> he_cas_from iv \<and>
             lo_cas_to y \<noteq> he_cas_from iv))"
  shows "\<exists>msg. check_linearizability iter h = Inr (Inl msg)"
proof (rule check_rejects [OF assms(6-8)], rule notI)
  let ?x = "completed_op iv e None True u128_max"
  assume "kv_linearizable (paired_ops h)"
  then obtain xs where xs: "mset xs = mset (paired_ops h)" "rt_ordered invoke_time complete_time xs"
    "legal model_obj kv_model_new xs" by (auto simp: linearizable_def)
  have set: "set xs = set (paired_ops h)" using xs(1) by (rule mset_eq_setD)
  have x: "?x \<in> set xs" unfolding set assms(1) by (rule paired_info [OF assms(2-5)])
  from assms(9) show False
  proof (elim disjE conjE bexE)
    fix y
    assume "he_op iv = ''read''" "y \<in> set (paired_ops h)" "op_type y = ''write''"
      "lo_key y = he_key iv" "complete_time y < time_ns iv"
    with x set blank_read_after_write [OF xs(3,2), of y ?x] show False by (simp add: completed_op_def)
  next
    assume "he_op iv = ''cas''"
      "\<forall>y\<in>set (paired_ops h). lo_value y \<noteq> he_cas_from iv \<and> lo_cas_to y \<noteq> he_cas_from iv"
    with x set legal_swaps_written [OF xs(3), of ?x] assms(6) show False
      by (auto simp: completed_op_def wf_op_def kv_model_new_def)
  qed
qed

theorem check_rejects_indeterminate_witness: "\<exists>msg. check_linearizability id info_history = Inr (Inl msg)"
proof (rule check_rejects_indeterminate)
  let ?x = "(sample_read None)\<lparr>complete_time := u128_max\<rparr>"
  have paired: "paired_ops info_history = [sample_write, ?x]"
    by (simp add: paired_ops_def info_history_def sample_entry_def pair_entry_def completed_op_def
        sample_write_def sample_read_def)
  show "info_history = [sample_entry 1 ''invoke'' ''write'' (Some 1) 10, sample_entry 1 ''ok'' ''write'' None 20] @
      sample_entry 2 ''invoke'' ''read'' None 30 # [] @ sample_entry 2 ''info'' ''error'' None 40 # []"
    by (simp add: info_history_def)
  show "\<forall>x\<in>set (paired_ops info_history). wf_op x"
    by (simp add: paired wf_op_def sample_write_def sample_read_def)
  show "\<forall>k. length (filter (\<lambda>x. lo_key x = k) (paired_ops info_history)) \<le> 101" by (simp add: paired)
  show "(he_op (sample_entry 2 ''invoke'' ''read'' None 30) = ''read'' \<and>
      (\<exists>y\<in>set (paired_ops info_history). op_type y = ''write'' \<and>
         lo_key y = he_key (sample_entry 2 ''invoke'' ''read'' None 30) \<and>
         complete_time y < time_ns (sample_entry 2 ''invoke'' ''read'' None 30))) \<or>
     (he_op (sample_entry 2 ''invoke'' ''read'' None 30) = ''cas'' \<and>
      (\<forall>y\<in>set (paired_ops info_history).
         lo_value y \<noteq> he_cas_from (sample_entry 2 ''invoke'' ''read'' None 30) \<and>
         lo_cas_to y \<noteq> he_cas_from (sample_entry 2 ''invoke'' ''read'' None 30)))"
    by (simp add: paired sample_entry_def sample_write_def)
qed (simp_all add: sample_entry_def)

end
