(* ===== verification/Harness.thy ===== *)
theory Harness
  imports Complex_Main "HOL-Library.AList" Network_Simulator Checker Maelstrom_Types
begin

text \<open>
  The test harness of \<open>src/bin/jepsen_harness.rs\<close>: node processes, message routing, client
  operations, the recording of the history and the fault injector \<open>run_nemesis\<close>. The operating
  system is the parameter \<open>harness_env\<close>: a monotonic clock (the \<open>k\<close>-th reading), what the
  \<open>k\<close>-th process that is spawned does at first, and the order in which a \<open>HashMap\<close> lists its keys.
  What processes do later, and every random choice, is an input of the round.
\<close>

section \<open>Node processes\<close>

text \<open>
  A child process: whether it still reads its input, whether the reader thread still runs, what was
  written to it, and the lines the reader thread has queued.
\<close>

record 'j node_process =
  np_alive :: bool
  np_reading :: bool
  np_stdin :: "'j list"
  np_rx :: "string list"

definition process_send :: "'j node_process \<Rightarrow> 'j \<Rightarrow> 'j node_process res" where
  "process_send p msg =
     (if np_alive p then Inr (p\<lparr>np_stdin := np_stdin p @ [msg]\<rparr>)
      else Inl (Panic ''Broken pipe''))"

definition try_recv :: "'j json_ops \<Rightarrow> 'j node_process \<Rightarrow> 'j option \<times> 'j node_process" where
  "try_recv J p =
     (case np_rx p of
        line # rest \<Rightarrow> (j_from_str J line, p\<lparr>np_rx := rest\<rparr>)
      | [] \<Rightarrow> (None, p))"

text \<open>Within the time limit the answer is in the queue or it is not.\<close>

definition recv_timeout :: "'j json_ops \<Rightarrow> 'j node_process \<Rightarrow> 'j option \<times> 'j node_process" where
  "recv_timeout J p = try_recv J p"

definition process_kill :: "'j node_process \<Rightarrow> 'j node_process" where
  "process_kill p = p\<lparr>np_alive := False\<rparr>"

text \<open>The reader thread: an empty line ends it, and nothing is queued afterwards.\<close>

definition reader_line :: "'j node_process \<Rightarrow> string \<Rightarrow> 'j node_process" where
  "reader_line p line =
     (if \<not> np_reading p then p
      else if line = [] then p\<lparr>np_reading := False\<rparr>
      else p\<lparr>np_rx := np_rx p @ [line]\<rparr>)"

text \<open>\<open>while let Some(msg) = process.try_recv()\<close>: an unreadable line is taken and ends the loop.\<close>

function drain_process :: "'j json_ops \<Rightarrow> 'j node_process \<Rightarrow> 'j list \<times> 'j node_process" where
  "drain_process J p =
     (case try_recv J p of
        (None, p') \<Rightarrow> ([], p')
      | (Some msg, p') \<Rightarrow> (let (msgs, p'') = drain_process J p' in (msg # msgs, p'')))"
  by pat_completeness auto
termination
  by (relation "measure (\<lambda>(J, p). length (np_rx p))") (auto simp: try_recv_def split: list.splits)

declare drain_process.simps [simp del]

section \<open>The harness\<close>

record 'j harness_env =
  hx_json :: "'j json_ops"
  hx_clk :: "nat \<Rightarrow> nat"
  hx_spawn :: "string \<Rightarrow> nat \<Rightarrow> 'j node_process option"
  hx_keys :: "string list \<Rightarrow> string list"

record 'j test_harness =
  th_nodes :: "(string \<times> 'j node_process) list"
  th_node_ids :: "string list"
  network :: network_simulator
  history :: "'j history_entry list"
  next_op_id :: u64
  binary_path :: string
  start_time :: nat
  clock_reads :: nat
  spawned :: nat

text \<open>\<open>Instant::now()\<close>: the next reading of the clock.\<close>

definition now :: "'j harness_env \<Rightarrow> 'j test_harness \<Rightarrow> nat \<times> 'j test_harness" where
  "now X h = (hx_clk X (clock_reads h), h\<lparr>clock_reads := Suc (clock_reads h)\<rparr>)"

text \<open>\<open>NodeProcess::spawn\<close>, the \<open>init\<close> message sent to the new process and its first answer.\<close>

definition init_json :: "'j json_ops \<Rightarrow> string \<Rightarrow> string list \<Rightarrow> 'j" where
  "init_json J nid nids =
     envelope J ''harness'' nid
       [(''type'', j_str J ''init''), (''msg_id'', j_u64 J 0), (''node_id'', j_str J nid),
        (''node_ids'', j_array J (map (j_str J) nids))]"

definition spawn_init ::
    "'j harness_env \<Rightarrow> 'j test_harness \<Rightarrow> string
       \<Rightarrow> ('j option \<times> 'j node_process \<times> 'j test_harness) res" where
  "spawn_init X h nid =
     bind_res (expect ''Failed to spawn maelstrom-node process'' (hx_spawn X (binary_path h) (spawned h)))
       (\<lambda>p. bind_res (process_send p (init_json (hx_json X) nid (th_node_ids h)))
         (\<lambda>p. let (r, p') = recv_timeout (hx_json X) p
              in Inr (r, p', h\<lparr>spawned := Suc (spawned h)\<rparr>)))"

definition insert_node :: "string \<Rightarrow> 'j node_process \<Rightarrow> 'j test_harness \<Rightarrow> 'j test_harness" where
  "insert_node nid p h = h\<lparr>th_nodes := AList.update nid p (th_nodes h)\<rparr>"

definition new_node :: "'j harness_env \<Rightarrow> 'j test_harness \<Rightarrow> string \<Rightarrow> 'j test_harness res" where
  "new_node X h nid =
     bind_res (spawn_init X h nid)
       (\<lambda>(response, p, h).
          case response of
            None \<Rightarrow> Inl (Panic (''Timeout waiting for init_ok from '' @ nid))
          | Some r \<Rightarrow>
              (let J = hx_json X
               in if j_as_str J (j_index J (j_index J r ''body'') ''type'') = Some ''init_ok''
                  then Inr (insert_node nid p h)
                  else Inl (Panic (''Expected init_ok from '' @ nid))))"

definition harness_new :: "'j harness_env \<Rightarrow> nat \<Rightarrow> string \<Rightarrow> 'j test_harness res" where
  "harness_new X node_count path =
     (let ids = map (\<lambda>i. CHR ''n'' # show_nat i) [0..<node_count];
          h0 = \<lparr>th_nodes = [], th_node_ids = ids, network = simulator_new, history = [],
                next_op_id = 1, binary_path = path, start_time = 0, clock_reads = 0, spawned = 0\<rparr>
      in bind_res (fold_res (new_node X) h0 ids)
           (\<lambda>h. let (t, h') = now X h in Inr (h'\<lparr>start_time := t\<rparr>)))"

definition get_op_id :: "'j test_harness \<Rightarrow> u64 \<times> 'j test_harness" where
  "get_op_id h = (next_op_id h, h\<lparr>next_op_id := next_op_id h + 1\<rparr>)"

subsection \<open>Routing\<close>

definition msg_dest :: "'j json_ops \<Rightarrow> 'j \<Rightarrow> string" where
  "msg_dest J msg = unwrap_or '''' (j_as_str J (j_index J msg ''dest''))"

definition msg_src :: "'j json_ops \<Rightarrow> 'j \<Rightarrow> string" where
  "msg_src J msg = unwrap_or '''' (j_as_str J (j_index J msg ''src''))"

definition to_client :: "string \<Rightarrow> bool" where
  "to_client dest \<longleftrightarrow> starts_with_char (CHR ''c'') dest \<or> dest = ''harness''"

text \<open>Draining the queue of one node, and of all nodes in the order the table lists them.\<close>

definition drain_node ::
    "'j json_ops \<Rightarrow> (string \<times> 'j node_process) list \<times> 'j list \<Rightarrow> string
       \<Rightarrow> (string \<times> 'j node_process) list \<times> 'j list" where
  "drain_node J st nid =
     (let (nodes, msgs) = st
      in case map_of nodes nid of
           None \<Rightarrow> (nodes, msgs)
         | Some p \<Rightarrow>
             (let (ms, p') = drain_process J p in (AList.update nid p' nodes, msgs @ ms)))"

definition drain_all_messages :: "'j harness_env \<Rightarrow> 'j test_harness \<Rightarrow> 'j list \<times> 'j test_harness" where
  "drain_all_messages X h =
     (let (nodes, msgs) = foldl (drain_node (hx_json X)) (th_nodes h, [])
                            (hx_keys X (map fst (th_nodes h)))
      in (msgs, h\<lparr>th_nodes := nodes\<rparr>))"

definition send_to :: "'j test_harness \<Rightarrow> string \<Rightarrow> 'j \<Rightarrow> 'j test_harness res" where
  "send_to h dest msg =
     (case map_of (th_nodes h) dest of
        None \<Rightarrow> Inr h
      | Some p \<Rightarrow> bind_res (process_send p msg) (\<lambda>p'. Inr (insert_node dest p' h)))"

definition deliver_one ::
    "'j harness_env \<Rightarrow> 'j list \<times> 'j test_harness \<Rightarrow> 'j \<Rightarrow> ('j list \<times> 'j test_harness) res" where
  "deliver_one X st msg =
     (let (client_responses, h) = st; J = hx_json X; dest = msg_dest J msg
      in if to_client dest then Inr (client_responses @ [msg], h)
         else if starts_with_char (CHR ''n'') dest then
           (let src = msg_src J msg
            in if \<not> is_partitioned (network h) src dest \<and> \<not> is_killed (network h) dest
               then bind_res (send_to h dest msg) (\<lambda>h'. Inr (client_responses, h'))
               else Inr (client_responses, h))
         else Inr (client_responses, h))"

definition deliver_messages ::
    "'j harness_env \<Rightarrow> 'j test_harness \<Rightarrow> 'j list \<Rightarrow> ('j list \<times> 'j test_harness) res" where
  "deliver_messages X h msgs = fold_res (deliver_one X) ([], h) msgs"

text \<open>\<open>route_messages\<close>: only nodes that are not killed are drained, and answers to clients are dropped.\<close>

definition route_choice :: "'j json_ops \<Rightarrow> network_simulator \<Rightarrow> 'j \<Rightarrow> (string \<times> 'j) option" where
  "route_choice J net msg =
     (let dest = msg_dest J msg; src = msg_src J msg
      in if to_client dest then Some (dest, msg)
         else if is_partitioned net src dest then None
         else if \<not> is_killed net dest then Some (dest, msg)
         else None)"

definition route_messages :: "'j harness_env \<Rightarrow> 'j test_harness \<Rightarrow> 'j test_harness res" where
  "route_messages X h =
     (let keys = filter (\<lambda>n. \<not> is_killed (network h) n) (hx_keys X (map fst (th_nodes h)));
          (nodes, msgs) = foldl (drain_node (hx_json X)) (th_nodes h, []) keys;
          to_deliver = List.map_filter (route_choice (hx_json X) (network h)) msgs
      in fold_res (\<lambda>h (dest, msg). if to_client dest then Inr h else send_to h dest msg)
           (h\<lparr>th_nodes := nodes\<rparr>) to_deliver)"

subsection \<open>Client operations and the history\<close>

definition client_number :: "string \<Rightarrow> nat" where
  "client_number cid =
     unwrap_or 0 (map_option unat (parse_u64 (unwrap_or ''0'' (strip_prefix_char (CHR ''c'') cid))))"

definition op_members ::
    "'j json_ops \<Rightarrow> string \<Rightarrow> 'j option \<Rightarrow> 'j option \<Rightarrow> 'j option \<Rightarrow> (string \<times> 'j) list res" where
  "op_members J ty v cas_from cas_to =
     (if ty = ''write'' then bind_res (unwrap v) (\<lambda>v. Inr [(''value'', v)])
      else if ty = ''cas'' then
        bind_res (unwrap cas_from)
          (\<lambda>f. bind_res (unwrap cas_to) (\<lambda>t. Inr [(''from'', f), (''to'', t)]))
      else Inr [])"

definition invoke_entry ::
    "u64 \<Rightarrow> string \<Rightarrow> string \<Rightarrow> string \<Rightarrow> 'j option \<Rightarrow> 'j option \<Rightarrow> 'j option \<Rightarrow> nat
       \<Rightarrow> 'j history_entry" where
  "invoke_entry op_id cid ty key v cas_from cas_to t =
     \<lparr>he_id = op_id, event_type = ''invoke'', client_id = client_number cid, he_op = ty,
      he_key = key, he_value = v, he_cas_from = cas_from, he_cas_to = cas_to, time_ns = t\<rparr>"

definition send_operation ::
    "'j harness_env \<Rightarrow> 'j test_harness \<Rightarrow> string \<Rightarrow> string \<Rightarrow> string \<Rightarrow> string \<Rightarrow> 'j option
       \<Rightarrow> 'j option \<Rightarrow> 'j option \<Rightarrow> (u64 \<times> 'j test_harness) res" where
  "send_operation X h nid cid ty key v cas_from cas_to =
     (let J = hx_json X; (op_id, h) = get_op_id h
      in bind_res (op_members J ty v cas_from cas_to)
           (\<lambda>members.
              let msg = envelope J cid nid
                    ([(''type'', j_str J ty), (''msg_id'', j_u64 J op_id), (''key'', j_str J key)]
                     @ members);
                  (t, h) = now X h;
                  h = h\<lparr>history := history h @
                    [invoke_entry op_id cid ty key v cas_from cas_to (t - start_time h)]\<rparr>
              in bind_res (send_to h nid msg) (\<lambda>h. Inr (op_id, h))))"

text \<open>\<open>replace("_ok", "")\<close>.\<close>

fun remove_ok :: "string \<Rightarrow> string" where
  "remove_ok (a # b # c # s) =
     (if [a, b, c] = ''_ok'' then remove_ok s else a # remove_ok (b # c # s))"
| "remove_ok s = s"

definition response_event :: "'j json_ops \<Rightarrow> 'j \<Rightarrow> string" where
  "response_event J msg =
     (let body = j_index J msg ''body'';
          msg_type = unwrap_or '''' (j_as_str J (j_index J body ''type''))
      in if ends_with msg_type ''_ok'' then ''ok''
         else if msg_type = ''error'' then
           (let code = unwrap_or 0 (j_as_u64 J (j_index J body ''code''))
            in if code = 20 \<or> code = 22 then ''fail'' else ''info'')
         else ''info'')"

definition response_entry :: "'j json_ops \<Rightarrow> 'j \<Rightarrow> nat \<Rightarrow> 'j history_entry" where
  "response_entry J msg t =
     (let body = j_index J msg ''body'';
          msg_type = unwrap_or '''' (j_as_str J (j_index J body ''type''));
          in_reply_to = unwrap_or 0 (j_as_u64 J (j_index J body ''in_reply_to''));
          result_value = (if msg_type = ''read_ok'' then Some (j_index J body ''value'') else None)
      in \<lparr>he_id = in_reply_to, event_type = response_event J msg,
          client_id = client_number (msg_dest J msg), he_op = remove_ok msg_type, he_key = '''',
          he_value = result_value, he_cas_from = None, he_cas_to = None, time_ns = t\<rparr>)"

definition record_response :: "'j harness_env \<Rightarrow> 'j test_harness \<Rightarrow> 'j \<Rightarrow> 'j test_harness" where
  "record_response X h msg =
     (let (t, h) = now X h
      in h\<lparr>history := history h @ [response_entry (hx_json X) msg (t - start_time h)]\<rparr>)"

end
