(* ===== verification/Files.thy ===== *)
theory Files
  imports Prelude
begin

text \<open>
  The file system, as far as server, client and harness use it: creating a file, writing to it and flushing it
  may each fail. The operations are a parameter (\<open>std::fs\<close> acts on the world outside the program); an
  error of theirs is \<open>None\<close>.
\<close>

record 'f file_ops =
  fo_create :: "string \<Rightarrow> 'f option"
  fo_write :: "'f \<Rightarrow> string \<Rightarrow> 'f option"
  fo_flush :: "'f \<Rightarrow> 'f option"

text \<open>A value as pretty JSON into a fresh file: serialise, create, write, flush.\<close>

definition write_json ::
    "'f file_ops \<Rightarrow> ('a \<Rightarrow> string option) \<Rightarrow> string \<Rightarrow> 'a \<Rightarrow> 'f option" where
  "write_json F to_string_pretty path x =
     Option.bind (to_string_pretty x)
       (\<lambda>json. Option.bind (fo_create F path)
         (\<lambda>f. Option.bind (fo_write F f json) (fo_flush F)))"

text \<open>
  \<open>std::fs::create_dir_all\<close> and \<open>std::fs::write\<close>, which the harness calls, act on the state of the file
  system.
\<close>

record 'w fs_ops =
  fs_create_dir_all :: "'w \<Rightarrow> string \<Rightarrow> 'w option"
  fs_write :: "'w \<Rightarrow> string \<Rightarrow> string \<Rightarrow> 'w option"

end
