(* ===== verification/Nemesis.thy ===== *)
theory Nemesis
  imports Harness Files
begin

text \<open>
  The driver of \<open>src/bin/jepsen_harness.rs\<close>: client rounds, the fault injector \<open>run_nemesis\<close> and
  \<open>main\<close>. A round takes as input what the node processes did since the last one and every random
  number it draws; durations are nanoseconds.
\<close>

section \<open>Inputs\<close>

text \<open>A process writes a line, or ends by itself.\<close>

datatype process_event = Emits string string | Exits string

text \<open>The random numbers of one client's turn; \<open>f64\<close> values are read as real numbers.\<close>

record client_choice =
  ch_key :: nat
  ch_node :: nat
  ch_op :: real
  ch_val :: nat
  ch_from :: nat
  ch_to :: nat

record round_input =
  ri_events :: "process_event list"
  ri_clients :: "nat \<Rightarrow> client_choice"
  ri_coin :: bool
  ri_target :: nat
  ri_delay :: nat

record 'j nemesis_state =
  ns_harness :: "'j test_harness"
  next_nemesis :: nat
  nemesis_active :: bool

text \<open>\<open>rng.gen_range(0..n)\<close> from a random number: an empty range panics.\<close>

definition gen_range :: "nat \<Rightarrow> nat \<Rightarrow> nat res" where
  "gen_range r n = (if n = 0 then Inl (Panic ''cannot sample empty range'') else Inr (r mod n))"

definition secs :: "nat \<Rightarrow> nat" where
  "secs n = n * 10 ^ 9"

section \<open>One round\<close>

fun process_acts :: "'j test_harness \<Rightarrow> process_event \<Rightarrow> 'j test_harness" where
  "process_acts h (Emits nid line) =
     (case map_of (th_nodes h) nid of
        None \<Rightarrow> h
      | Some p \<Rightarrow> insert_node nid (reader_line p line) h)"
| "process_acts h (Exits nid) =
     (case map_of (th_nodes h) nid of
        None \<Rightarrow> h
      | Some p \<Rightarrow> insert_node nid (p\<lparr>np_alive := False\<rparr>) h)"

definition pick_node :: "'j test_harness \<Rightarrow> nat \<Rightarrow> string res" where
  "pick_node h r =
     bind_res (gen_range r (length (th_node_ids h))) (\<lambda>i. Inr (th_node_ids h ! i))"

definition client_turn ::
    "'j harness_env \<Rightarrow> nat \<Rightarrow> 'j test_harness \<Rightarrow> nat \<times> client_choice \<Rightarrow> 'j test_harness res" where
  "client_turn X num_keys h turn =
     (let (client_idx, ch) = turn; J = hx_json X; cid = CHR ''c'' # show_nat client_idx
      in bind_res (gen_range (ch_key ch) num_keys)
           (\<lambda>k. bind_res (pick_node h (ch_node ch))
             (\<lambda>target.
                let key = ''key'' @ show_nat k;
                    submit = (\<lambda>ty v f t. bind_res (send_operation X h target cid ty key v f t)
                                          (\<lambda>(_, h'). Inr h'));
                    num = (\<lambda>r. Some (j_u64 J (of_nat (r mod 100))))
                in if is_killed (network h) target then Inr h
                   else if ch_op ch < 4 / 10 then submit ''read'' None None None
                   else if ch_op ch < 8 / 10 then submit ''write'' (num (ch_val ch)) None None
                   else submit ''cas'' None (num (ch_from ch)) (num (ch_to ch)))))"

definition kill_target :: "'j test_harness \<Rightarrow> string \<Rightarrow> 'j test_harness" where
  "kill_target h target =
     (let h' = (case map_of (th_nodes h) target of
                  None \<Rightarrow> h
                | Some p \<Rightarrow> insert_node target (process_kill p) h)
      in h'\<lparr>network := kill_node (network h') target\<rparr>)"

definition isolate_target :: "'j test_harness \<Rightarrow> string \<Rightarrow> 'j test_harness" where
  "isolate_target h target =
     h\<lparr>network := isolate_node (network h) target (th_node_ids h)\<rparr>"

definition nemesis_strike ::
    "string \<Rightarrow> round_input \<Rightarrow> 'j test_harness \<Rightarrow> 'j test_harness res" where
  "nemesis_strike ty inp h =
     (if ty = ''partition'' then
        (if ri_coin inp
         then bind_res (pick_node h (ri_target inp)) (\<lambda>target. Inr (isolate_target h target))
         else Inr (h\<lparr>network := split_brain (network h) (th_node_ids h)\<rparr>))
      else if ty = ''kill'' then
        bind_res (pick_node h (ri_target inp)) (\<lambda>target. Inr (kill_target h target))
      else if ty = ''all'' then
        (if ri_coin inp
         then bind_res (pick_node h (ri_target inp)) (\<lambda>target. Inr (isolate_target h target))
         else bind_res (pick_node h (ri_target inp)) (\<lambda>target. Inr (kill_target h target)))
      else Inr h)"

definition respawn :: "'j harness_env \<Rightarrow> 'j test_harness \<Rightarrow> string \<Rightarrow> 'j test_harness res" where
  "respawn X h nid =
     bind_res (spawn_init X (h\<lparr>network := restart_node (network h) nid\<rparr>) nid)
       (\<lambda>(_, p, h). Inr (insert_node nid p h))"

definition heal_and_restart :: "'j harness_env \<Rightarrow> 'j test_harness \<Rightarrow> 'j test_harness res" where
  "heal_and_restart X h =
     (let h' = h\<lparr>network := heal_all (network h)\<rparr>
      in fold_res (respawn X) h' (killed_nodes (network h')))"

text \<open>The end of a branch: the state of the nemesis turns over and its next move is scheduled.\<close>

definition reschedule ::
    "'j harness_env \<Rightarrow> nat \<Rightarrow> round_input \<Rightarrow> bool \<Rightarrow> 'j test_harness \<Rightarrow> 'j nemesis_state" where
  "reschedule X start inp active h =
     (let (t, h') = now X h
      in \<lparr>ns_harness = h', next_nemesis = (t - start) + secs (3 + ri_delay inp mod 5),
          nemesis_active = active\<rparr>)"

definition nemesis_move ::
    "'j harness_env \<Rightarrow> string \<Rightarrow> nat \<Rightarrow> round_input \<Rightarrow> 'j nemesis_state \<Rightarrow> 'j nemesis_state res" where
  "nemesis_move X ty start inp s =
     (if ty = ''none'' then Inr s
      else (let (t, h) = now X (ns_harness s)
            in if t - start > next_nemesis s
               then (if \<not> nemesis_active s
                     then bind_res (nemesis_strike ty inp h)
                            (\<lambda>h'. Inr (reschedule X start inp True h'))
                     else bind_res (heal_and_restart X h)
                            (\<lambda>h'. Inr (reschedule X start inp False h')))
               else Inr (s\<lparr>ns_harness := h\<rparr>)))"

definition nemesis_round ::
    "'j harness_env \<Rightarrow> string \<Rightarrow> nat \<Rightarrow> nat \<Rightarrow> nat \<Rightarrow> 'j nemesis_state \<Rightarrow> round_input
       \<Rightarrow> 'j nemesis_state res" where
  "nemesis_round X ty start concurrency num_keys s inp =
     (let (all_msgs, h) = drain_all_messages X (foldl process_acts (ns_harness s) (ri_events inp))
      in bind_res (deliver_messages X h all_msgs)
           (\<lambda>(client_responses, h).
              bind_res (fold_res (client_turn X num_keys) (foldl (record_response X) h client_responses)
                          (map (\<lambda>i. (i, ri_clients inp i)) [0..<concurrency]))
                (\<lambda>h. nemesis_move X ty start inp (s\<lparr>ns_harness := h\<rparr>))))"

section \<open>The loop and main\<close>

text \<open>
  The loop \<open>while start.elapsed() < duration\<close> over the inputs of its rounds. The flag says whether
  the loop has ended by its condition; when it is \<open>False\<close> the inputs have run out before.
\<close>

fun nemesis_loop ::
    "'j harness_env \<Rightarrow> string \<Rightarrow> nat \<Rightarrow> nat \<Rightarrow> nat \<Rightarrow> nat \<Rightarrow> round_input list \<Rightarrow> 'j nemesis_state
       \<Rightarrow> (bool \<times> 'j nemesis_state) res" where
  "nemesis_loop X ty start duration concurrency num_keys [] s = Inr (False, s)"
| "nemesis_loop X ty start duration concurrency num_keys (inp # inps) s =
     (let (t, h) = now X (ns_harness s); s = s\<lparr>ns_harness := h\<rparr>
      in if t - start < duration
         then bind_res (nemesis_round X ty start concurrency num_keys s inp)
                (nemesis_loop X ty start duration concurrency num_keys inps)
         else Inr (True, s))"

text \<open>\<open>Duration::from_secs_f64\<close> panics on a negative, infinite or too large argument.\<close>

definition op_delay_ok :: "real \<Rightarrow> bool" where
  "op_delay_ok rate \<longleftrightarrow> 0 < rate \<and> 1 / rate < 2 ^ 64"

definition run_nemesis ::
    "'j harness_env \<Rightarrow> 'j test_harness \<Rightarrow> string \<Rightarrow> nat \<Rightarrow> real \<Rightarrow> nat \<Rightarrow> nat \<Rightarrow> round_input list
       \<Rightarrow> (bool \<times> 'j test_harness) res" where
  "run_nemesis X h ty duration rate concurrency num_keys inps =
     (let (start, h) = now X h
      in if \<not> op_delay_ok rate then Inl (Panic ''can not convert float seconds to Duration'')
         else bind_res
           (nemesis_loop X ty start duration concurrency num_keys inps
              \<lparr>ns_harness = h, next_nemesis = secs 5, nemesis_active = False\<rparr>)
           (\<lambda>(finished, s). let h = ns_harness s
              in Inr (finished, if finished then h\<lparr>network := heal_all (network h)\<rparr> else h)))"

definition shutdown :: "'j test_harness \<Rightarrow> 'j test_harness" where
  "shutdown h = h\<lparr>th_nodes := map (\<lambda>(nid, p). (nid, process_kill p)) (th_nodes h)\<rparr>"

text \<open>The command line: an unknown option exits, a missing or unreadable value panics.\<close>

record settings =
  node_count :: nat
  duration_secs :: nat
  rate :: real
  concurrency :: nat
  nemesis :: string
  num_keys :: nat

definition default_settings :: settings where
  "default_settings =
     \<lparr>node_count = 3, duration_secs = 30, rate = 10, concurrency = 5, nemesis = ''partition'',
      num_keys = 5\<rparr>"

datatype 'a exiting = Exit nat | Continue 'a

definition parse_num :: "string \<Rightarrow> nat res" where
  "parse_num s = unwrap (map_option unat (parse_u64 s))"

definition set_option_value ::
    "(string \<Rightarrow> real option) \<Rightarrow> string \<Rightarrow> string \<Rightarrow> settings \<Rightarrow> settings res" where
  "set_option_value parse_f64 flag v s =
     (if flag = ''--nodes'' then bind_res (parse_num v) (\<lambda>n. Inr (s\<lparr>node_count := n\<rparr>))
      else if flag = ''--duration'' then bind_res (parse_num v) (\<lambda>n. Inr (s\<lparr>duration_secs := n\<rparr>))
      else if flag = ''--rate'' then bind_res (unwrap (parse_f64 v)) (\<lambda>r. Inr (s\<lparr>rate := r\<rparr>))
      else if flag = ''--concurrency'' then bind_res (parse_num v) (\<lambda>n. Inr (s\<lparr>concurrency := n\<rparr>))
      else if flag = ''--nemesis'' then Inr (s\<lparr>nemesis := v\<rparr>)
      else bind_res (parse_num v) (\<lambda>n. Inr (s\<lparr>num_keys := n\<rparr>)))"

definition known_flag :: "string \<Rightarrow> bool" where
  "known_flag flag \<longleftrightarrow> flag \<in> {''--nodes'', ''--duration'', ''--rate'', ''--concurrency'',
     ''--nemesis'', ''--keys''}"

fun parse_args ::
    "(string \<Rightarrow> real option) \<Rightarrow> string list \<Rightarrow> settings \<Rightarrow> settings exiting res" where
  "parse_args parse_f64 [] s = Inr (Continue s)"
| "parse_args parse_f64 [flag] s =
     (if known_flag flag then Inl (Panic ''index out of bounds'') else Inr (Exit 1))"
| "parse_args parse_f64 (flag # v # args) s =
     (if known_flag flag
      then bind_res (set_option_value parse_f64 flag v s) (parse_args parse_f64 args)
      else Inr (Exit 1))"

text \<open>What the processes do while \<open>main\<close> sleeps, and the inputs of the rounds.\<close>

record main_input =
  mi_election :: "process_event list"
  mi_settle :: "process_event list"
  mi_rounds :: "round_input list"
  mi_pending :: "process_event list"

definition choose_binary :: "bool \<Rightarrow> bool \<Rightarrow> string \<Rightarrow> string exiting" where
  "choose_binary release_exists debug_exists dir =
     (if release_exists then Continue (dir @ ''/target/release/maelstrom-node'')
      else if debug_exists then Continue (dir @ ''/target/debug/maelstrom-node'')
      else Exit 1)"

definition op_counts :: "'j history_entry list \<Rightarrow> nat \<times> nat \<times> nat" where
  "op_counts hist =
     (length (filter (\<lambda>e. event_type e = ''invoke'') hist),
      length (filter (\<lambda>e. event_type e = ''ok'' \<or> event_type e = ''fail'') hist),
      length (filter (\<lambda>e. event_type e = ''info'') hist))"

text \<open>The history is saved as JSON; whatever fails on the way panics.\<close>

definition save_history ::
    "'w fs_ops \<Rightarrow> ('j history_entry list \<Rightarrow> string option) \<Rightarrow> 'w \<Rightarrow> 'j history_entry list \<Rightarrow> 'w res" where
  "save_history FS to_string_pretty w hist =
     bind_res (unwrap (fs_create_dir_all FS w ''test-results''))
       (\<lambda>w. bind_res (unwrap (to_string_pretty hist))
       (\<lambda>history_json. unwrap (fs_write FS w ''test-results/history.json'' history_json)))"

text \<open>
  The verdict on a history: exit code 1 and the message, or \<open>PASS\<close>. \<open>None\<close> stands for inputs that end
  before the test does; \<open>w\<close> is the file system.
\<close>

definition harness_main ::
    "'j harness_env \<Rightarrow> ((string \<times> 'j linear_op list) list \<Rightarrow> (string \<times> 'j linear_op list) list)
       \<Rightarrow> 'w fs_ops \<Rightarrow> ('j history_entry list \<Rightarrow> string option) \<Rightarrow> settings \<Rightarrow> string \<Rightarrow> main_input \<Rightarrow> 'w
       \<Rightarrow> ('j test_harness \<times> 'w \<times> (string + unit)) option res" where
  "harness_main X iter FS to_string_pretty s binary inp w =
     bind_res (harness_new X (node_count s) binary)
       (\<lambda>h. bind_res (route_messages X (foldl process_acts h (mi_election inp)))
       (\<lambda>h. bind_res (route_messages X (foldl process_acts h (mi_settle inp)))
       (\<lambda>h. bind_res (run_nemesis X h (nemesis s) (secs (duration_secs s)) (rate s) (concurrency s)
                        (num_keys s) (mi_rounds inp))
       (\<lambda>(finished, h).
          if \<not> finished then Inr None
          else bind_res (route_messages X (foldl process_acts h (mi_pending inp)))
            (\<lambda>h. let hist = history h; h = shutdown h
              in bind_res (save_history FS to_string_pretty w hist)
                (\<lambda>w. bind_res (check_linearizability iter hist)
                  (\<lambda>verdict. Inr (Some (h, w, verdict)))))))))"

end
