(* ===== verification/Harness_Safety.thy ===== *)
theory Harness_Safety
  imports Nemesis
begin

text \<open>
  The invariant of the test harness and its consequences: no operation writes to a dead process, so
  no test run panics unless a process ends by itself; invocations carry the numbers 1, 2, 3, \<dots> and
  time stamps never go back, so every history is one the checker accepts as input. The locale
  \<open>harness_os\<close> is what the harness relies on from the operating system.
\<close>

section \<open>The invariant\<close>

text \<open>A node that is not marked as killed has a live process.\<close>

definition procs_ok :: "'j test_harness \<Rightarrow> bool" where
  "procs_ok h \<longleftrightarrow>
     (\<forall>nid p. map_of (th_nodes h) nid = Some p \<longrightarrow> \<not> is_killed (network h) nid \<longrightarrow> np_alive p)"

abbreviation is_invoke :: "'j history_entry \<Rightarrow> bool" where
  "is_invoke e \<equiv> event_type e = ''invoke''"

text \<open>An invocation the checker can apply to its model.\<close>

definition invoke_ok :: "'j history_entry \<Rightarrow> bool" where
  "invoke_ok e \<longleftrightarrow>
     (he_op e = ''write'' \<longrightarrow> he_value e \<noteq> None) \<and>
     (he_op e = ''cas'' \<longrightarrow> he_cas_from e \<noteq> None \<and> he_cas_to e \<noteq> None)"

definition hist_ok :: "'j harness_env \<Rightarrow> 'j test_harness \<Rightarrow> bool" where
  "hist_ok X h \<longleftrightarrow>
     sorted (map time_ns (history h)) \<and>
     (\<forall>e\<in>set (history h). time_ns e \<le> hx_clk X (clock_reads h) - start_time h) \<and>
     (\<forall>e\<in>set (history h). is_invoke e \<longrightarrow> invoke_ok e) \<and>
     map he_id (filter is_invoke (history h)) =
       map (\<lambda>i. of_nat (Suc i)) [0..<length (filter is_invoke (history h))] \<and>
     next_op_id h = of_nat (Suc (length (filter is_invoke (history h))))"

text \<open>The number \<open>c\<close> is a lower bound of the clock readings so far.\<close>

definition harness_inv :: "'j harness_env \<Rightarrow> nat \<Rightarrow> 'j test_harness \<Rightarrow> bool" where
  "harness_inv X c h \<longleftrightarrow>
     procs_ok h \<and> hist_ok X h \<and> th_node_ids h \<noteq> [] \<and> c \<le> clock_reads h"

text \<open>A change that leaves the history and the fault state alone and lets the clock go on.\<close>

definition silent :: "'j test_harness \<Rightarrow> 'j test_harness \<Rightarrow> bool" where
  "silent h h' \<longleftrightarrow>
     history h' = history h \<and> next_op_id h' = next_op_id h \<and> start_time h' = start_time h \<and>
     th_node_ids h' = th_node_ids h \<and> clock_reads h \<le> clock_reads h'"

lemma silent_refl [simp, intro]: "silent h h"
  by (simp add: silent_def)

lemma silent_trans: "silent h h' \<Longrightarrow> silent h' h'' \<Longrightarrow> silent h h''"
  by (simp add: silent_def)

lemma silent_insert_node [simp]: "silent h (insert_node nid p h)"
  by (simp add: silent_def insert_node_def)

lemma silent_network [simp]: "silent h (h\<lparr>network := net\<rparr>)"
  by (simp add: silent_def)

lemma silent_nodes [simp]: "silent h (h\<lparr>th_nodes := ns\<rparr>)"
  by (simp add: silent_def)

lemma network_insert_node [simp]: "network (insert_node nid p h) = network h"
  by (simp add: insert_node_def)

lemma lookup_insert_node:
  "map_of (th_nodes (insert_node nid p h)) k = (if k = nid then Some p else map_of (th_nodes h) k)"
  by (simp add: insert_node_def update_conv')

lemma insert_node_procs:
  "procs_ok h \<Longrightarrow> np_alive p \<or> is_killed (network h) nid \<Longrightarrow> procs_ok (insert_node nid p h)"
  by (auto simp: procs_ok_def lookup_insert_node)

section \<open>Operations that cannot fail\<close>

lemma drain_process_alive: "np_alive (snd (drain_process J p)) = np_alive p"
proof (induction J p rule: drain_process.induct)
  case (1 J p)
  then show ?case
    by (subst drain_process.simps)
      (auto simp: try_recv_def case_prod_beta Let_def split: list.splits option.splits)
qed

lemma drain_node_procs:
  assumes "\<forall>nid p. map_of nodes nid = Some p \<longrightarrow> \<not> K nid \<longrightarrow> np_alive p"
  shows "\<forall>nid p. map_of (fst (foldl (drain_node J) (nodes, msgs) ks)) nid = Some p \<longrightarrow> \<not> K nid \<longrightarrow>
           np_alive p"
  using assms
proof (induction ks arbitrary: nodes msgs)
  case Nil
  then show ?case by simp
next
  case (Cons k ks)
  obtain nodes' msgs' where st: "drain_node J (nodes, msgs) k = (nodes', msgs')" by fastforce
  have "\<forall>nid p. map_of nodes' nid = Some p \<longrightarrow> \<not> K nid \<longrightarrow> np_alive p"
    using Cons.prems st drain_process_alive [of J "the (map_of nodes k)"]
    by (auto simp: drain_node_def update_conv' case_prod_beta Let_def split: option.splits if_splits)
  from Cons.IH [OF this] st show ?case by simp
qed

lemma drained_procs:
  "procs_ok h \<Longrightarrow> procs_ok (h\<lparr>th_nodes := fst (foldl (drain_node J) (th_nodes h, []) ks)\<rparr>)"
  using drain_node_procs [of "th_nodes h" "is_killed (network h)" J "[]" ks]
  by (simp add: procs_ok_def)

text \<open>Delivery to a node that is not killed succeeds.\<close>

lemma send_to_ok:
  assumes "procs_ok h" "\<not> is_killed (network h) dest"
  shows "\<exists>h'. send_to h dest msg = Inr h' \<and> procs_ok h' \<and> silent h h' \<and> network h' = network h"
proof (cases "map_of (th_nodes h) dest")
  case None
  with assms(1) show ?thesis by (simp add: send_to_def)
next
  case (Some p)
  with assms have "np_alive p" by (auto simp: procs_ok_def)
  with Some assms(1) show ?thesis by (simp add: send_to_def process_send_def insert_node_procs)
qed

text \<open>No process ends by itself.\<close>

fun is_exit :: "process_event \<Rightarrow> bool" where
  "is_exit (Exits _) = True"
| "is_exit (Emits _ _) = False"

definition calm :: "process_event list \<Rightarrow> bool" where
  "calm evs \<longleftrightarrow> \<not> list_ex is_exit evs"

section \<open>What the harness relies on\<close>

locale harness_os =
  fixes X :: "'j harness_env"
  assumes clk_mono: "i \<le> j \<Longrightarrow> hx_clk X i \<le> hx_clk X j"
    and spawn_alive: "\<exists>p. hx_spawn X path k = Some p \<and> np_alive p"
begin

lemma hist_ok_silent: "hist_ok X h \<Longrightarrow> silent h h' \<Longrightarrow> hist_ok X h'"
  unfolding hist_ok_def silent_def
  using clk_mono [of "clock_reads h" "clock_reads h'"] by (fastforce intro: le_trans diff_le_mono)

lemma inv_silent: "harness_inv X c h \<Longrightarrow> silent h h' \<Longrightarrow> procs_ok h' \<Longrightarrow> harness_inv X c h'"
  unfolding harness_inv_def using hist_ok_silent by (auto simp: silent_def)

lemma now_inv: "harness_inv X c h \<Longrightarrow> harness_inv X c (snd (now X h))"
  by (rule inv_silent) (auto simp: now_def silent_def harness_inv_def procs_ok_def)

text \<open>Appending an entry stamped with the present time.\<close>

lemma hist_ok_append:
  assumes "hist_ok X h" "history h' = history h @ [e]"
    and "time_ns e = hx_clk X (clock_reads h) - start_time h"
    and "clock_reads h' = Suc (clock_reads h)" "start_time h' = start_time h"
    and "if is_invoke e
         then invoke_ok e \<and> he_id e = next_op_id h \<and> next_op_id h' = next_op_id h + 1
         else next_op_id h' = next_op_id h"
  shows "hist_ok X h'"
proof -
  have "hx_clk X (clock_reads h) - start_time h \<le> hx_clk X (Suc (clock_reads h)) - start_time h"
    by (intro diff_le_mono clk_mono) simp
  then have "\<forall>x\<in>set (history h @ [e]). time_ns x \<le> hx_clk X (Suc (clock_reads h)) - start_time h"
    using assms(1,3) by (auto simp: hist_ok_def intro: le_trans)
  moreover have "sorted (map time_ns (history h @ [e]))"
    using assms(1,3) by (auto simp: hist_ok_def sorted_append)
  ultimately show ?thesis
    using assms by (cases "is_invoke e") (auto simp: hist_ok_def)
qed

lemma response_not_invoke: "\<not> is_invoke (response_entry J msg t)"
  by (simp add: response_entry_def response_event_def Let_def)

lemma record_response_inv:
  assumes "harness_inv X c h"
  shows "harness_inv X c (record_response X h msg)"
proof -
  let ?e = "response_entry (hx_json X) msg (hx_clk X (clock_reads h) - start_time h)"
  have "hist_ok X (record_response X h msg)"
  proof (rule hist_ok_append [of h _ ?e])
    show "if is_invoke ?e
      then invoke_ok ?e \<and> he_id ?e = next_op_id h \<and>
        next_op_id (record_response X h msg) = next_op_id h + 1
      else next_op_id (record_response X h msg) = next_op_id h"
      by (simp add: response_not_invoke record_response_def now_def)
  qed (use assms in \<open>simp_all add: harness_inv_def record_response_def now_def
        response_entry_def Let_def\<close>)
  then show ?thesis using assms
    by (simp add: harness_inv_def procs_ok_def record_response_def now_def)
qed

lemma foldl_record_response_inv:
  "harness_inv X c h \<Longrightarrow> harness_inv X c (foldl (record_response X) h msgs)"
  by (induction msgs arbitrary: h) (simp_all add: record_response_inv)

lemma drain_all_inv: "harness_inv X c h \<Longrightarrow> harness_inv X c (snd (drain_all_messages X h))"
  by (rule inv_silent)
    (auto simp: drain_all_messages_def case_prod_beta Let_def harness_inv_def drained_procs)

lemma send_to_inv:
  assumes "harness_inv X c h" "\<not> is_killed (network h) dest"
  shows "\<exists>h'. send_to h dest msg = Inr h' \<and> harness_inv X c h' \<and> network h' = network h"
  using send_to_ok [of h dest msg] assms inv_silent by (metis harness_inv_def)

lemma deliver_messages_inv:
  assumes "harness_inv X c h"
  shows "\<exists>rs h'. deliver_messages X h msgs = Inr (rs, h') \<and> harness_inv X c h'"
proof -
  have "\<exists>st. fold_res (deliver_one X) ([], h) msgs = Inr st \<and> harness_inv X c (snd st)"
  proof (rule fold_res_total)
    show "harness_inv X c (snd ([], h))" using assms by simp
  next
    fix st :: "'j list \<times> 'j test_harness" and msg
    assume "harness_inv X c (snd st)"
    with send_to_inv [of c "snd st" "msg_dest (hx_json X) msg" msg]
    show "\<exists>st'. deliver_one X st msg = Inr st' \<and> harness_inv X c (snd st')"
      by (cases st) (auto simp: deliver_one_def Let_def)
  qed
  then show ?thesis by (simp add: deliver_messages_def)
qed

lemma route_messages_inv:
  assumes "harness_inv X c h"
  shows "\<exists>h'. route_messages X h = Inr h' \<and> harness_inv X c h'"
proof -
  let ?ks = "filter (\<lambda>n. \<not> is_killed (network h) n) (hx_keys X (map fst (th_nodes h)))"
  let ?st = "foldl (drain_node (hx_json X)) (th_nodes h, []) ?ks"
  let ?ms = "List.map_filter (route_choice (hx_json X) (network h)) (snd ?st)"
  let ?send = "\<lambda>h (dest, msg). if to_client dest then Inr h else send_to h dest msg"
  have "\<exists>h'. fold_res ?send (h\<lparr>th_nodes := fst ?st\<rparr>) ?ms = Inr h' \<and>
      harness_inv X c h' \<and> network h' = network h"
  proof (rule fold_res_total)
    show "harness_inv X c (h\<lparr>th_nodes := fst ?st\<rparr>) \<and> network (h\<lparr>th_nodes := fst ?st\<rparr>) = network h"
    proof
      show "harness_inv X c (h\<lparr>th_nodes := fst ?st\<rparr>)"
        by (rule inv_silent [OF assms silent_nodes drained_procs])
          (use assms in \<open>simp add: harness_inv_def\<close>)
    qed simp
  next
    fix g m
    assume m: "m \<in> set ?ms" and g: "harness_inv X c g \<and> network g = network h"
    obtain dest msg where dm: "m = (dest, msg)" by fastforce
    with m have "to_client dest \<or> \<not> is_killed (network h) dest"
      by (auto simp: List.map_filter_def route_choice_def Let_def split: if_splits)
    with g send_to_inv [of c g dest msg]
    show "\<exists>h'. ?send g m = Inr h' \<and> harness_inv X c h' \<and> network h' = network h"
      by (auto simp: dm)
  qed
  then show ?thesis by (auto simp: route_messages_def case_prod_beta Let_def)
qed

lemma send_operation_inv:
  assumes "harness_inv X c h" "\<not> is_killed (network h) nid"
    and "ty = ''write'' \<longrightarrow> v \<noteq> None" "ty = ''cas'' \<longrightarrow> f \<noteq> None \<and> t \<noteq> None"
  shows "\<exists>i h'. send_operation X h nid cid ty key v f t = Inr (i, h') \<and> harness_inv X c h'"
proof -
  have "\<exists>members. op_members (hx_json X) ty v f t = Inr members"
    using assms(3,4) by (auto simp: op_members_def)
  then obtain members where m: "op_members (hx_json X) ty v f t = Inr members" by blast
  let ?e = "invoke_entry (next_op_id h) cid ty key v f t (hx_clk X (clock_reads h) - start_time h)"
  let ?h = "h\<lparr>next_op_id := next_op_id h + 1, clock_reads := Suc (clock_reads h),
              history := history h @ [?e]\<rparr>"
  have "hist_ok X ?h"
    by (rule hist_ok_append [of h _ ?e])
      (use assms in \<open>simp_all add: harness_inv_def invoke_entry_def invoke_ok_def\<close>)
  then have inv: "harness_inv X c ?h" using assms(1) by (simp add: harness_inv_def procs_ok_def)
  let ?msg = "envelope (hx_json X) cid nid
    ([(''type'', j_str (hx_json X) ty), (''msg_id'', j_u64 (hx_json X) (next_op_id h)),
      (''key'', j_str (hx_json X) key)] @ members)"
  from send_to_inv [OF inv, of nid ?msg] assms(2) obtain h' where
    "send_to ?h nid ?msg = Inr h'" "harness_inv X c h'" by auto
  with m show ?thesis by (simp add: send_operation_def get_op_id_def now_def Let_def)
qed

lemma pick_node_ok: "harness_inv X c h \<Longrightarrow> \<exists>nid. pick_node h r = Inr nid"
  by (simp add: harness_inv_def pick_node_def gen_range_def)

lemma client_turn_inv:
  assumes "harness_inv X c h" "0 < nk"
  shows "\<exists>h'. client_turn X nk h turn = Inr h' \<and> harness_inv X c h'"
proof -
  obtain i ch where turn: "turn = (i, ch)" by fastforce
  obtain target where target: "pick_node h (ch_node ch) = Inr target"
    using pick_node_ok [OF assms(1)] by blast
  note send = send_operation_inv [OF assms(1), of target]
  show ?thesis
  proof (cases "is_killed (network h) target")
    case True
    with assms target show ?thesis by (simp add: client_turn_def turn gen_range_def)
  next
    case False
    let ?cid = "CHR ''c'' # show_nat i" and ?key = "''key'' @ show_nat (ch_key ch mod nk)"
    let ?num = "\<lambda>r. Some (j_u64 (hx_json X) (of_nat (r mod 100)))"
    from send [OF False, of "''read''" None None None ?cid ?key]
      send [OF False, of "''write''" "?num (ch_val ch)" None None ?cid ?key]
      send [OF False, of "''cas''" None "?num (ch_from ch)" "?num (ch_to ch)" ?cid ?key]
    show ?thesis using False assms(2) target
      by (auto simp: client_turn_def turn gen_range_def Let_def)
  qed
qed

subsection \<open>Fault injection\<close>

lemma network_inv:
  assumes "harness_inv X c h" "killed_nodes net = killed_nodes (network h)"
  shows "harness_inv X c (h\<lparr>network := net\<rparr>)"
  using assms by (auto simp: harness_inv_def procs_ok_def is_killed_def hist_ok_silent)

lemma kill_target_inv:
  assumes "harness_inv X c h"
  shows "harness_inv X c (kill_target h target)"
proof (rule inv_silent [OF assms])
  show "silent h (kill_target h target)"
    by (auto simp: kill_target_def Let_def silent_def insert_node_def split: option.split)
  show "procs_ok (kill_target h target)"
    using assms
    by (auto simp: harness_inv_def procs_ok_def kill_target_def kill_node_def is_killed_def Let_def
        lookup_insert_node split: option.splits if_splits)
qed

lemma nemesis_strike_inv:
  assumes "harness_inv X c h"
  shows "\<exists>h'. nemesis_strike ty inp h = Inr h' \<and> harness_inv X c h'"
proof -
  obtain target where "pick_node h (ri_target inp) = Inr target"
    using pick_node_ok [OF assms] by blast
  then show ?thesis
    using assms by (simp add: nemesis_strike_def isolate_target_def kill_target_inv network_inv)
qed

lemma respawn_inv:
  assumes "harness_inv X c h"
  shows "\<exists>h'. respawn X h nid = Inr h' \<and> harness_inv X c h'"
proof -
  let ?h = "h\<lparr>network := restart_node (network h) nid\<rparr>"
  obtain p where p: "hx_spawn X (binary_path h) (spawned h) = Some p" "np_alive p"
    using spawn_alive by blast
  let ?p = "p\<lparr>np_stdin := np_stdin p @ [init_json (hx_json X) nid (th_node_ids h)]\<rparr>"
  let ?q = "snd (recv_timeout (hx_json X) ?p)"
  let ?h' = "insert_node nid ?q (?h\<lparr>spawned := Suc (spawned h)\<rparr>)"
  have alive: "np_alive ?q" using p(2) by (simp add: recv_timeout_def try_recv_def split: list.split)
  have "procs_ok ?h'"
    unfolding procs_ok_def
  proof (intro allI impI)
    fix k r
    assume k: "map_of (th_nodes ?h') k = Some r" "\<not> is_killed (network ?h') k"
    show "np_alive r"
    proof (cases "k = nid")
      case True
      with k(1) alive show ?thesis by (simp add: lookup_insert_node)
    next
      case False
      with k assms show ?thesis
        by (simp add: lookup_insert_node harness_inv_def procs_ok_def restart_node_def is_killed_def)
    qed
  qed
  moreover have "silent h ?h'" by (simp add: silent_def insert_node_def)
  ultimately have "harness_inv X c ?h'" using assms by (blast intro: inv_silent)
  moreover have "respawn X h nid = Inr ?h'"
    using p by (simp add: respawn_def spawn_init_def process_send_def case_prod_beta Let_def)
  ultimately show ?thesis by blast
qed

lemma heal_and_restart_inv:
  assumes "harness_inv X c h"
  shows "\<exists>h'. heal_and_restart X h = Inr h' \<and> harness_inv X c h'"
  unfolding heal_and_restart_def Let_def
  by (rule fold_res_total) (use assms in \<open>simp_all add: respawn_inv network_inv\<close>)

lemma nemesis_move_inv:
  assumes "harness_inv X c (ns_harness s)"
  shows "\<exists>s'. nemesis_move X ty start inp s = Inr s' \<and> harness_inv X c (ns_harness s')"
proof -
  let ?h = "snd (now X (ns_harness s))"
  have h: "harness_inv X c ?h" using assms by (rule now_inv)
  obtain h1 where h1: "nemesis_strike ty inp ?h = Inr h1" "harness_inv X c h1"
    using nemesis_strike_inv [OF h] by blast
  obtain h2 where h2: "heal_and_restart X ?h = Inr h2" "harness_inv X c h2"
    using heal_and_restart_inv [OF h] by blast
  have "harness_inv X c (ns_harness (reschedule X start inp b g))" if "harness_inv X c g" for b g
    using now_inv [OF that] by (simp add: reschedule_def case_prod_beta Let_def)
  with assms h h1 h2 show ?thesis
    by (auto simp: nemesis_move_def case_prod_beta Let_def)
qed

lemma process_acts_inv:
  assumes "harness_inv X c h" "ev = Emits nid line"
  shows "harness_inv X c (process_acts h ev)"
proof (cases "map_of (th_nodes h) nid")
  case None
  with assms show ?thesis by simp
next
  case (Some p)
  with assms have "procs_ok (insert_node nid (reader_line p line) h)"
    by (intro insert_node_procs) (auto simp: harness_inv_def procs_ok_def reader_line_def)
  with assms Some show ?thesis by (simp add: inv_silent)
qed

lemma foldl_process_acts_inv:
  assumes "harness_inv X c h" "calm evs"
  shows "harness_inv X c (foldl process_acts h evs)"
  using assms
proof (induction evs arbitrary: h)
  case Nil
  then show ?case by simp
next
  case (Cons ev evs)
  then obtain nid line where "ev = Emits nid line" by (cases ev) (auto simp: calm_def)
  with Cons show ?case by (simp add: calm_def process_acts_inv del: process_acts.simps)
qed

lemma nemesis_round_inv:
  assumes "harness_inv X c (ns_harness s)" "calm (ri_events inp)" "0 < nk"
  shows "\<exists>s'. nemesis_round X ty start n nk s inp = Inr s' \<and> harness_inv X c (ns_harness s')"
proof -
  let ?d = "drain_all_messages X (foldl process_acts (ns_harness s) (ri_events inp))"
  have "harness_inv X c (snd ?d)"
    using assms by (intro drain_all_inv foldl_process_acts_inv)
  from deliver_messages_inv [OF this, of "fst ?d"] obtain rs h where
    d: "deliver_messages X (snd ?d) (fst ?d) = Inr (rs, h)" "harness_inv X c h" by blast
  have "harness_inv X c (foldl (record_response X) h rs)"
    using d(2) by (rule foldl_record_response_inv)
  then have "\<exists>g. fold_res (client_turn X nk) (foldl (record_response X) h rs)
      (map (\<lambda>i. (i, ri_clients inp i)) [0..<n]) = Inr g \<and> harness_inv X c g"
    by (rule fold_res_total) (rule client_turn_inv [OF _ assms(3)])
  then obtain g where g: "fold_res (client_turn X nk) (foldl (record_response X) h rs)
      (map (\<lambda>i. (i, ri_clients inp i)) [0..<n]) = Inr g" "harness_inv X c g" by blast
  from nemesis_move_inv [of c "s\<lparr>ns_harness := g\<rparr>" ty start inp] d(1) g show ?thesis
    by (simp add: nemesis_round_def case_prod_beta Let_def)
qed

lemma nemesis_loop_inv:
  assumes "harness_inv X c (ns_harness s)" "\<forall>inp\<in>set inps. calm (ri_events inp)" "0 < nk"
  shows "\<exists>b s'. nemesis_loop X ty start dur n nk inps s = Inr (b, s') \<and>
           harness_inv X c (ns_harness s')"
  using assms(1,2)
proof (induction inps arbitrary: s)
  case Nil
  then show ?case by auto
next
  case (Cons inp inps)
  let ?s = "s\<lparr>ns_harness := snd (now X (ns_harness s))\<rparr>"
  have "harness_inv X c (ns_harness ?s)" using now_inv [OF Cons.prems(1)] by simp
  from nemesis_round_inv [OF this _ assms(3), of inp ty start n] Cons.prems(2) obtain s' where
    "nemesis_round X ty start n nk ?s inp = Inr s'" "harness_inv X c (ns_harness s')" by auto
  with Cons.IH [of s'] Cons.prems(2) \<open>harness_inv X c (ns_harness ?s)\<close> show ?case
    by (auto simp: case_prod_beta Let_def)
qed

lemma run_nemesis_inv:
  assumes "harness_inv X c h" "\<forall>inp\<in>set inps. calm (ri_events inp)" "0 < nk" "op_delay_ok r"
  shows "\<exists>b h'. run_nemesis X h ty dur r n nk inps = Inr (b, h') \<and> harness_inv X c h'"
proof -
  let ?s = "\<lparr>ns_harness = snd (now X h), next_nemesis = secs 5, nemesis_active = False\<rparr>"
  have "harness_inv X c (ns_harness ?s)" using now_inv [OF assms(1)] by simp
  from nemesis_loop_inv [OF this assms(2,3), of ty "fst (now X h)" dur n] obtain b s' where
    "nemesis_loop X ty (fst (now X h)) dur n nk inps ?s = Inr (b, s')"
    "harness_inv X c (ns_harness s')" by blast
  with assms(4) network_inv show ?thesis
    by (auto simp: run_nemesis_def case_prod_beta Let_def)
qed

subsection \<open>Start-up and the end of the loop\<close>

lemma new_node_ok:
  assumes "new_node X h nid = Inr h'" "procs_ok h"
  shows "procs_ok h' \<and> history h' = history h \<and> next_op_id h' = next_op_id h \<and>
         th_node_ids h' = th_node_ids h \<and> clock_reads h \<le> clock_reads h'"
proof -
  obtain p where p: "hx_spawn X (binary_path h) (spawned h) = Some p" "np_alive p"
    using spawn_alive by blast
  let ?p = "p\<lparr>np_stdin := np_stdin p @ [init_json (hx_json X) nid (th_node_ids h)]\<rparr>"
  let ?q = "snd (recv_timeout (hx_json X) ?p)"
  have "np_alive ?q" using p(2) by (simp add: recv_timeout_def try_recv_def split: list.split)
  moreover have "procs_ok (h\<lparr>spawned := Suc (spawned h)\<rparr>)" using assms(2) by (simp add: procs_ok_def)
  ultimately have "procs_ok (insert_node nid ?q (h\<lparr>spawned := Suc (spawned h)\<rparr>))"
    by (simp add: insert_node_procs)
  moreover have "h' = insert_node nid ?q (h\<lparr>spawned := Suc (spawned h)\<rparr>)"
    using assms(1) p
    by (auto simp: new_node_def spawn_init_def process_send_def case_prod_beta Let_def
        split: option.splits if_splits)
  ultimately show ?thesis by (simp add: insert_node_def)
qed

lemma harness_new_inv:
  assumes "harness_new X n path = Inr h" "0 < n"
  shows "harness_inv X 0 h"
proof -
  let ?ids = "map (\<lambda>i. CHR ''n'' # show_nat i) [0..<n]"
  let ?h0 = "\<lparr>th_nodes = [], th_node_ids = ?ids, network = simulator_new, history = [],
      next_op_id = 1, binary_path = path, start_time = 0, clock_reads = 0, spawned = 0\<rparr>"
  obtain g where g: "fold_res (new_node X) ?h0 ?ids = Inr g"
    and h: "h = (snd (now X g))\<lparr>start_time := fst (now X g)\<rparr>"
    using assms(1) by (auto simp: harness_new_def bind_res_eq_Inr case_prod_beta Let_def)
  have "procs_ok g \<and> history g = [] \<and> next_op_id g = 1 \<and> th_node_ids g = ?ids"
    by (rule fold_res_invariant [OF g]) (auto simp: procs_ok_def dest: new_node_ok)
  with assms(2) show ?thesis
    by (simp add: h now_def harness_inv_def procs_ok_def hist_ok_def)
qed

lemma nemesis_loop_finishes:
  assumes "\<And>k. hx_clk X k + tick \<le> hx_clk X (Suc k)" "0 < nk"
    and "harness_inv X c (ns_harness s)" "\<forall>inp\<in>set inps. calm (ri_events inp)" "inps \<noteq> []"
    and "start \<le> hx_clk X (clock_reads (ns_harness s))"
    and "dur \<le> hx_clk X (clock_reads (ns_harness s)) - start + tick * (length inps - 1)"
  shows "\<exists>s'. nemesis_loop X ty start dur n nk inps s = Inr (True, s') \<and> harness_inv X c (ns_harness s')"
  using assms(3-7)
proof (induction inps arbitrary: s)
  case Nil
  then show ?case by simp
next
  case (Cons inp inps)
  let ?k = "clock_reads (ns_harness s)"
  let ?s = "s\<lparr>ns_harness := snd (now X (ns_harness s))\<rparr>"
  have s: "harness_inv X c (ns_harness ?s)" using now_inv [OF Cons.prems(1)] by simp
  then have "harness_inv X (max c (Suc ?k)) (ns_harness ?s)"
    by (simp add: harness_inv_def now_def)
  from nemesis_round_inv [OF this _ assms(2), of inp ty start n] Cons.prems(2) obtain s' where
    r: "nemesis_round X ty start n nk ?s inp = Inr s'" "harness_inv X c (ns_harness s')"
      "Suc ?k \<le> clock_reads (ns_harness s')" by (auto simp: harness_inv_def)
  show ?case
  proof (cases "hx_clk X ?k - start < dur")
    case True
    let ?t = "hx_clk X (clock_reads (ns_harness s'))"
    have t: "hx_clk X ?k + tick \<le> ?t"
      using assms(1) [of ?k] clk_mono [OF r(3)] by simp
    have "inps \<noteq> []" using True Cons.prems(5) by auto
    then have "tick * length inps = tick + tick * (length inps - 1)" by (cases inps) simp_all
    with Cons.prems(4,5) t have "start \<le> ?t" "dur \<le> ?t - start + tick * (length inps - 1)" by simp_all
    with Cons.IH [OF r(2)] Cons.prems(2) \<open>inps \<noteq> []\<close> r(1) True show ?thesis by (simp add: now_def)
  next
    case False
    with s show ?thesis by (simp add: now_def)
  qed
qed

lemma run_nemesis_finishes:
  assumes "\<And>k. hx_clk X k + tick \<le> hx_clk X (Suc k)" "0 < nk" "op_delay_ok r"
    and "harness_inv X c h" "\<forall>inp\<in>set inps. calm (ri_events inp)"
    and "inps \<noteq> []" "dur \<le> tick * (length inps - 1)"
  shows "\<exists>h'. run_nemesis X h ty dur r n nk inps = Inr (True, h') \<and> harness_inv X c h' \<and>
           (\<forall>a b. \<not> is_partitioned (network h') a b)"
proof -
  let ?s = "\<lparr>ns_harness = snd (now X h), next_nemesis = secs 5, nemesis_active = False\<rparr>"
  have "hx_clk X (clock_reads h) \<le> hx_clk X (Suc (clock_reads h))" by (rule clk_mono) simp
  then have "\<exists>s'. nemesis_loop X ty (fst (now X h)) dur n nk inps ?s = Inr (True, s') \<and>
      harness_inv X c (ns_harness s')"
    using now_inv [OF assms(4)] assms(5-7)
    by (intro nemesis_loop_finishes [where tick = tick] assms(1,2)) (auto simp: now_def)
  then show ?thesis using assms(3) network_inv
    by (auto simp: run_nemesis_def case_prod_beta Let_def)
qed

end

section \<open>Histories the checker can read\<close>

text \<open>Pairing, one entry at a time: what is paired is well formed and ends after it began.\<close>

definition pairing_ok :: "nat \<Rightarrow> 'j linear_op list \<times> (u64 \<rightharpoonup> 'j history_entry) \<Rightarrow> bool" where
  "pairing_ok T st \<longleftrightarrow>
     (\<forall>x\<in>set (fst st). wf_op x \<and> invoke_time x \<le> complete_time x) \<and>
     (\<forall>e\<in>ran (snd st). invoke_ok e \<and> time_ns e \<le> T)"

lemma pair_entry_ok:
  assumes "pairing_ok T st" "T \<le> time_ns e" "time_ns e \<le> u128_max" "is_invoke e \<longrightarrow> invoke_ok e"
  shows "pairing_ok (time_ns e) (pair_entry st e)"
proof -
  obtain ops invs where st: "st = (ops, invs)" by fastforce
  have found: "invoke_ok i \<and> time_ns i \<le> time_ns e \<and> time_ns i \<le> u128_max" if "invs k = Some i" for i k
  proof -
    from that have "i \<in> ran invs" by (auto simp: ran_def)
    with assms(1) have "invoke_ok i" "time_ns i \<le> T" by (simp_all add: st pairing_ok_def)
    with assms(2,3) show ?thesis by simp
  qed
  have ran: "\<forall>i\<in>ran (invs(he_id e := None)). invoke_ok i \<and> time_ns i \<le> time_ns e"
    "\<forall>i\<in>ran invs. invoke_ok i \<and> time_ns i \<le> time_ns e"
    "is_invoke e \<longrightarrow> (\<forall>i\<in>ran (invs(he_id e \<mapsto> e)). invoke_ok i \<and> time_ns i \<le> time_ns e)"
    using found assms(4) by (auto simp: ran_def)
  show ?thesis
    using assms(1,3) ran found
    by (auto simp: st pair_entry_def pairing_ok_def completed_op_def wf_op_def invoke_ok_def
        split: option.splits)
qed

lemma foldl_pair_entry_ok:
  assumes "pairing_ok T st" "\<forall>e\<in>set hist. T \<le> time_ns e \<and> time_ns e \<le> u128_max"
    and "sorted (map time_ns hist)" "\<forall>e\<in>set hist. is_invoke e \<longrightarrow> invoke_ok e"
  shows "\<exists>T'. pairing_ok T' (foldl pair_entry st hist)"
  using assms
proof (induction hist arbitrary: T st)
  case Nil
  then show ?case by auto
next
  case (Cons e hist)
  then have "pairing_ok (time_ns e) (pair_entry st e)" by (intro pair_entry_ok) auto
  from Cons.IH [OF this] Cons.prems show ?case by simp
qed

lemma paired_ops_ok:
  assumes "sorted (map time_ns hist)" "\<forall>e\<in>set hist. time_ns e \<le> u128_max"
    and "\<forall>e\<in>set hist. is_invoke e \<longrightarrow> invoke_ok e"
  shows "\<forall>x\<in>set (paired_ops hist). wf_op x \<and> invoke_time x \<le> complete_time x"
proof -
  have "pairing_ok 0 ([], Map.empty)" by (simp add: pairing_ok_def)
  from foldl_pair_entry_ok [OF this, of hist] assms show ?thesis
    by (auto simp: paired_ops_def pairing_ok_def)
qed

text \<open>Each invocation is paired at most once when invocations have different numbers.\<close>

lemma pair_entry_distinct:
  assumes "foldl pair_entry ([], Map.empty) hist = (ops, invs)"
    and "distinct (map he_id (filter is_invoke hist))"
  shows "distinct (map lo_id ops) \<and> set (map lo_id ops) \<inter> dom invs = {} \<and>
         set (map lo_id ops) \<union> dom invs \<subseteq> set (map he_id (filter is_invoke hist))"
  using assms
proof (induction hist arbitrary: ops invs rule: rev_induct)
  case Nil
  then show ?case by simp
next
  case (snoc e hist)
  obtain ops' invs' where st: "foldl pair_entry ([], Map.empty) hist = (ops', invs')" by fastforce
  have IH: "distinct (map lo_id ops') \<and> set (map lo_id ops') \<inter> dom invs' = {} \<and>
      set (map lo_id ops') \<union> dom invs' \<subseteq> set (map he_id (filter is_invoke hist))"
    using snoc.prems(2) by (intro snoc.IH [OF st]) simp
  have step: "pair_entry (ops', invs') e = (ops, invs)" using snoc.prems(1) st by simp
  show ?case
  proof (cases "is_invoke e")
    case True
    with step have "ops = ops'" "dom invs = insert (he_id e) (dom invs')" by (auto simp: pair_entry_def)
    moreover have "he_id e \<notin> set (map he_id (filter is_invoke hist))"
      using True snoc.prems(2) by auto
    ultimately show ?thesis using IH True by simp blast
  next
    case False
    show ?thesis
    proof (cases "(ops, invs) = (ops', invs')")
      case True
      with IH False show ?thesis by auto
    next
      case new: False
      with False step obtain i r ok t where "ops = ops' @ [completed_op i e r ok t]"
        "invs = invs'(he_id e := None)" "invs' (he_id e) = Some i"
        by (auto simp: pair_entry_def split: option.splits if_splits)
      then have "map lo_id ops = map lo_id ops' @ [he_id e]" "he_id e \<in> dom invs'"
        "dom invs = dom invs' - {he_id e}" by (auto simp: completed_op_def)
      with IH False show ?thesis by simp blast
    qed
  qed
qed

lemma distinct_op_ids:
  assumes "n < 2 ^ 64"
  shows "distinct (map (\<lambda>i. of_nat (Suc i) :: u64) [0..<n])"
proof -
  have "inj_on (\<lambda>i. of_nat (Suc i) :: u64) {0..<n}"
  proof (rule inj_onI)
    fix i j
    assume "i \<in> {0..<n}" "j \<in> {0..<n}" and eq: "(of_nat (Suc i) :: u64) = of_nat (Suc j)"
    with assms have "Suc i < 2 ^ LENGTH(64)" "Suc j < 2 ^ LENGTH(64)" by simp_all
    moreover from eq have "unat (of_nat (Suc i) :: u64) = unat (of_nat (Suc j) :: u64)" by (rule arg_cong)
    ultimately show "i = j" by (simp only: unat_of_nat mod_less nat.inject)
  qed
  then show ?thesis by (simp add: distinct_map)
qed

lemma hist_ok_paired:
  assumes "hist_ok X h" "\<forall>e\<in>set (history h). time_ns e \<le> u128_max"
  shows "\<forall>x\<in>set (paired_ops (history h)). wf_op x \<and> invoke_time x \<le> complete_time x"
    and "length (filter is_invoke (history h)) < 2 ^ 64 \<Longrightarrow>
           distinct (map lo_id (paired_ops (history h)))"
proof -
  show "\<forall>x\<in>set (paired_ops (history h)). wf_op x \<and> invoke_time x \<le> complete_time x"
    using assms by (intro paired_ops_ok) (auto simp: hist_ok_def)
  assume "length (filter is_invoke (history h)) < 2 ^ 64"
  then have "distinct (map he_id (filter is_invoke (history h)))"
    using assms(1) distinct_op_ids by (simp add: hist_ok_def)
  with pair_entry_distinct [of "history h"] show "distinct (map lo_id (paired_ops (history h)))"
    by (metis paired_ops_def prod.collapse)
qed



section \<open>A concrete operating system\<close>

text \<open>Processes that answer the \<open>init\<close> message and then write what the rounds say; every reading of the
  clock is one second later.\<close>

definition demo_lines :: "string \<Rightarrow> json_value option" where
  "demo_lines line =
     (if line = ''ok'' then Some (out_json value_json (Init_Ok ''n0'' ''harness'' (JNum 0)))
      else if line = ''w'' then Some (out_json value_json (Write_Ok ''n0'' ''c0'' 1))
      else None)"

definition demo_os :: "json_value harness_env" where
  "demo_os =
     \<lparr>hx_json = value_json\<lparr>j_from_str := demo_lines\<rparr>, hx_clk = secs,
      hx_spawn = (\<lambda>_ _. Some \<lparr>np_alive = True, np_reading = True, np_stdin = [], np_rx = [''ok'']\<rparr>),
      hx_keys = id\<rparr>"

interpretation dos: harness_os demo_os
  by unfold_locales (simp_all add: demo_os_def secs_def)

definition demo_process :: "string \<Rightarrow> json_value node_process" where
  "demo_process nid =
     \<lparr>np_alive = True, np_reading = True,
      np_stdin = [init_json value_json nid [''n0'', ''n1'']], np_rx = []\<rparr>"

definition demo_harness :: "json_value test_harness" where
  "demo_harness =
     \<lparr>th_nodes = [(''n0'', demo_process ''n0''), (''n1'', demo_process ''n1'')],
      th_node_ids = [''n0'', ''n1''], network = simulator_new, history = [], next_op_id = 1,
      binary_path = ''bin'', start_time = 0, clock_reads = 1, spawned = 2\<rparr>"

lemma show_nat_01: "show_nat 0 = ''0''" "show_nat 1 = ''1''" "show_nat (Suc 0) = ''1''"
  by (simp_all add: show_nat.simps digit_char_def char_of_def bit_numeral_rec bit_0)

lemma demo_new: "harness_new demo_os 2 ''bin'' = Inr demo_harness"
  by (simp add: harness_new_def new_node_def spawn_init_def process_send_def recv_timeout_def
      try_recv_def demo_os_def demo_lines_def demo_harness_def demo_process_def value_json_def
      envelope_def init_json_def insert_node_def now_def show_nat_01 numeral_2_eq_2 secs_def Let_def)

definition demo_round :: round_input where
  "demo_round =
     \<lparr>ri_events = [], ri_clients = (\<lambda>i. \<lparr>ch_key = i, ch_node = i, ch_op = 1 / 2, ch_val = 7,
        ch_from = 1, ch_to = 2\<rparr>), ri_coin = True, ri_target = 0, ri_delay = 0\<rparr>"

lemma demo_calm: "\<forall>inp\<in>set (replicate k demo_round). calm (ri_events inp)"
  by (simp add: calm_def demo_round_def)

lemma demo_clock: "hx_clk demo_os k + secs 1 \<le> hx_clk demo_os (Suc k)"
  by (simp add: demo_os_def secs_def)

section \<open>Properties\<close>

text \<open>
  C8. A test run does its work and ends: started on an initialised cluster whose processes do not end
  by themselves, with any faults injected, \<open>run_nemesis\<close> never panics (it never writes to a process
  it has killed), leaves the loop once the time is over, and no partition is left behind. Between two
  readings of the clock at least \<open>tick\<close> nanoseconds pass, and there are rounds enough for the duration.
\<close>

theorem run_nemesis_completes:
  assumes "harness_os X" "\<And>k. hx_clk X k + tick \<le> hx_clk X (Suc k)"
    and "harness_new X n path = Inr h" "0 < n" "0 < nk" "op_delay_ok r"
    and "\<forall>inp\<in>set inps. calm (ri_events inp)" "inps \<noteq> []" "dur \<le> tick * (length inps - 1)"
  shows "\<exists>h'. run_nemesis X h ty dur r clients nk inps = Inr (True, h') \<and>
           (\<forall>a b. \<not> is_partitioned (network h') a b)"
  using harness_os.run_nemesis_finishes [OF assms(1,2,5,6)
      harness_os.harness_new_inv [OF assms(1,3,4)] assms(7-9), of ty clients] by blast

theorem run_nemesis_completes_witness:
  "\<exists>h'. run_nemesis demo_os demo_harness ''all'' (secs 9) 10 3 5 (replicate 10 demo_round) = Inr (True, h') \<and>
     (\<forall>a b. \<not> is_partitioned (network h') a b)"
  by (rule run_nemesis_completes [OF dos.harness_os_axioms demo_clock demo_new _ _ _ demo_calm])
    (simp_all add: op_delay_ok_def secs_def)

text \<open>
  C10. Whatever faults were injected during a test run whose processes do not end by themselves, its
  history is one the checker can read: no operation is paired twice, none ends before it began, every
  write carries a value and every compare-and-swap both of its values, and so the check gives a verdict
  and never panics.
\<close>

theorem run_history_checkable:
  assumes "harness_os X" "harness_new X n path = Inr h" "0 < n" "0 < nk" "op_delay_ok r"
    and "\<forall>inp\<in>set inps. calm (ri_events inp)"
    and "run_nemesis X h ty dur r clients nk inps = Inr (b, h')"
    and "\<forall>e\<in>set (history h'). time_ns e \<le> u128_max"
    and "length (filter is_invoke (history h')) < 2 ^ 64"
    and "\<And>gs. mset (iter gs) = mset gs"
  shows "distinct (map lo_id (paired_ops (history h'))) \<and>
         (\<forall>x\<in>set (paired_ops (history h')). wf_op x \<and> invoke_time x \<le> complete_time x) \<and>
         (\<exists>verdict. check_linearizability iter (history h') = Inr verdict)"
proof -
  have hist: "hist_ok X h'"
    using harness_os.run_nemesis_inv [OF assms(1) harness_os.harness_new_inv [OF assms(1-3)]
        assms(6,4,5), of ty dur clients] assms(7) by (auto simp: harness_inv_def)
  note paired = hist_ok_paired [OF hist assms(8)]
  then have "\<forall>x\<in>set (paired_ops (history h')). wf_op x" by blast
  from check_linearizability_groups(2) [OF this assms(10)] paired assms(9) show ?thesis by blast
qed

text \<open>A run of two rounds with one client: it writes, the node answers, and it writes again.\<close>

definition demo_rounds :: "round_input list" where
  "demo_rounds = [demo_round, demo_round\<lparr>ri_events := [Emits ''n0'' ''w'']\<rparr>, demo_round]"

definition demo_history :: "json_value history_entry list" where
  "demo_history =
     [invoke_entry 1 ''c0'' ''write'' ''key0'' (Some (JNum 7)) None None (secs 3),
      response_entry value_json (out_json value_json (Write_Ok ''n0'' ''c0'' 1)) (secs 5),
      invoke_entry 2 ''c0'' ''write'' ''key0'' (Some (JNum 7)) None None (secs 6)]"

definition demo_request :: "u64 \<Rightarrow> json_value" where
  "demo_request i = envelope value_json ''c0'' ''n0''
     [(''type'', JStr ''write''), (''msg_id'', JNum i), (''key'', JStr ''key0''), (''value'', JNum 7)]"

definition demo_harness_after :: "json_value test_harness" where
  "demo_harness_after = demo_harness\<lparr>history := demo_history, next_op_id := 3, clock_reads := 8,
     th_nodes := [(''n0'', (demo_process ''n0'')\<lparr>np_stdin := np_stdin (demo_process ''n0'') @
                     [demo_request 1, demo_request 2]\<rparr>), (''n1'', demo_process ''n1'')]\<rparr>"

lemmas demo_unfold =
  nemesis_round_def nemesis_move_def demo_round_def drain_all_messages_def drain_node_def
  drain_process.simps try_recv_def reader_line_def insert_node_def deliver_messages_def deliver_one_def
  record_response_def client_turn_def gen_range_def pick_node_def send_operation_def get_op_id_def
  op_members_def send_to_def process_send_def demo_lines_def demo_harness_def demo_process_def demo_os_def
  demo_request_def now_def to_client_def starts_with_char_def msg_dest_def show_nat_01 Let_def

lemma secs_diff_less: "secs a - secs b < secs c \<longleftrightarrow> a - b < c"
  by (simp add: secs_def diff_mult_distrib [symmetric])

lemma demo_run:
  "run_nemesis demo_os demo_harness ''none'' (secs 5) 10 1 5 demo_rounds = Inr (True, demo_harness_after)"
proof -
  let ?s = "\<lambda>h. \<lparr>ns_harness = h, next_nemesis = secs 5, nemesis_active = False\<rparr>"
  let ?h1 = "demo_harness\<lparr>history := take 1 demo_history, next_op_id := 2, clock_reads := 4,
     th_nodes := [(''n0'', (demo_process ''n0'')\<lparr>np_stdin := np_stdin (demo_process ''n0'') @
                     [demo_request 1]\<rparr>), (''n1'', demo_process ''n1'')]\<rparr>"
  have r1: "nemesis_round demo_os ''none'' (secs 1) 1 5 (?s (demo_harness\<lparr>clock_reads := 3\<rparr>)) demo_round =
      Inr (?s ?h1)"
    by (simp add: demo_unfold, simp add: demo_history_def value_json_def envelope_def is_killed_def
        simulator_new_def)
  have r2: "nemesis_round demo_os ''none'' (secs 1) 1 5 (?s (?h1\<lparr>clock_reads := 5\<rparr>))
      (demo_round\<lparr>ri_events := [Emits ''n0'' ''w'']\<rparr>) = Inr (?s (demo_harness_after\<lparr>clock_reads := 7\<rparr>))"
    by (simp add: demo_unfold demo_harness_after_def, simp add: demo_history_def value_json_def envelope_def
        is_killed_def simulator_new_def response_entry_def response_event_def msg_dest_def Let_def)
  have clk: "hx_clk demo_os = secs" by (simp add: demo_os_def)
  have reads: "clock_reads demo_harness = 1" "clock_reads demo_harness_after = 8"
    by (simp_all add: demo_harness_def demo_harness_after_def)
  let ?loop = "nemesis_loop demo_os ''none'' (secs 1) (secs 5) 1 5"
  have "?loop [demo_round] (?s (demo_harness_after\<lparr>clock_reads := 7\<rparr>)) = Inr (True, ?s demo_harness_after)"
    using reads(2) by (simp add: now_def clk secs_diff_less del: One_nat_def)
  then have "?loop (tl demo_rounds) (?s ?h1) = Inr (True, ?s demo_harness_after)"
    using r2 by (simp add: demo_rounds_def now_def clk secs_diff_less del: One_nat_def)
  then have "?loop demo_rounds (?s (demo_harness\<lparr>clock_reads := 2\<rparr>)) = Inr (True, ?s demo_harness_after)"
    using r1 by (simp add: demo_rounds_def now_def clk secs_diff_less del: One_nat_def)
  moreover have "demo_harness_after\<lparr>network := heal_all (network demo_harness_after)\<rparr> = demo_harness_after"
    by (simp add: demo_harness_after_def demo_harness_def heal_all_def simulator_new_def)
  ultimately show ?thesis
    using reads(1) by (simp add: run_nemesis_def op_delay_ok_def now_def clk numeral_2_eq_2)
qed

lemma demo_history_paired: "map lo_id (paired_ops demo_history) = [1]"
  by (simp add: demo_history_def paired_ops_def pair_entry_def completed_op_def invoke_entry_def
      response_entry_def response_event_def value_json_def envelope_def ends_with_def Let_def)

theorem run_history_checkable_witness:
  "\<exists>h' verdict. run_nemesis demo_os demo_harness ''none'' (secs 5) 10 1 5 demo_rounds = Inr (True, h') \<and>
     map lo_id (paired_ops (history h')) = [1] \<and> check_linearizability rev (history h') = Inr verdict"
proof -
  have hist: "history demo_harness_after = demo_history" by (simp add: demo_harness_after_def)
  have "\<forall>inp\<in>set demo_rounds. calm (ri_events inp)" by (simp add: demo_rounds_def calm_def demo_round_def)
  moreover have "\<forall>e\<in>set (history demo_harness_after). time_ns e \<le> u128_max"
    by (simp add: hist demo_history_def invoke_entry_def response_entry_def secs_def u128_max_def Let_def)
  moreover have "length (filter is_invoke (history demo_harness_after)) \<le> length (history demo_harness_after)"
    by (rule length_filter_le)
  then have "length (filter is_invoke (history demo_harness_after)) < 2 ^ 64"
    by (simp add: hist demo_history_def)
  ultimately have "\<exists>verdict. check_linearizability rev (history demo_harness_after) = Inr verdict"
    using run_history_checkable [OF dos.harness_os_axioms demo_new _ _ _ _ demo_run, of rev]
    by (simp add: op_delay_ok_def)
  with demo_run demo_history_paired hist show ?thesis by auto
qed




end
