(* ===== verification/Recording.thy ===== *)
theory Recording
  imports Harness Cluster
begin

text \<open>
  How the node of \<open>src/bin/maelstrom_node.rs\<close> and the harness of \<open>src/bin/jepsen_harness.rs\<close> fit
  together: what the harness delivers, and what its history makes of an operation and of the reply
  a node writes. The checker's model accepts a recorded operation exactly when the reply agrees
  with the sequential store, so a history of a linearizable run passes the check.
\<close>

section \<open>Delivery\<close>

text \<open>The messages of a batch that reach a node: addressed to it, over a link that is up.\<close>

definition reaches :: "'j json_ops \<Rightarrow> network_simulator \<Rightarrow> string \<Rightarrow> 'j \<Rightarrow> bool" where
  "reaches J net nid msg \<longleftrightarrow>
     msg_dest J msg = nid \<and> starts_with_char (CHR ''n'') nid \<and> \<not> to_client nid \<and>
     \<not> is_partitioned net (msg_src J msg) nid \<and> \<not> is_killed net nid"

lemma deliver_one_effect:
  assumes "deliver_one X (rs, h) msg = Inr (rs', h')" "map_of (th_nodes h) nid = Some p"
  shows "network h' = network h \<and>
         rs' = rs @ filter (\<lambda>m. to_client (msg_dest (hx_json X) m)) [msg] \<and>
         (\<exists>p'. map_of (th_nodes h') nid = Some p' \<and>
           np_stdin p' = np_stdin p @ filter (reaches (hx_json X) (network h) nid) [msg])"
  using assms
  by (auto simp: deliver_one_def send_to_def process_send_def reaches_def insert_node_def update_conv'
      Let_def bind_res_eq_Inr split: if_splits option.splits)

lemma deliver_messages_effect:
  assumes "fold_res (deliver_one X) (rs, h) msgs = Inr (rs', h')" "map_of (th_nodes h) nid = Some p"
  shows "network h' = network h \<and>
         rs' = rs @ filter (\<lambda>m. to_client (msg_dest (hx_json X) m)) msgs \<and>
         (\<exists>p'. map_of (th_nodes h') nid = Some p' \<and>
           np_stdin p' = np_stdin p @ filter (reaches (hx_json X) (network h) nid) msgs)"
  using assms
proof (induction msgs arbitrary: rs h p)
  case Nil
  then show ?case by simp
next
  case (Cons msg msgs)
  obtain rs1 h1 where s: "deliver_one X (rs, h) msg = Inr (rs1, h1)"
    "fold_res (deliver_one X) (rs1, h1) msgs = Inr (rs', h')"
    using Cons.prems(1) by (auto split: sum.splits)
  from deliver_one_effect [OF s(1) Cons.prems(2)] obtain p1 where
    "network h1 = network h" "rs1 = rs @ filter (\<lambda>m. to_client (msg_dest (hx_json X) m)) [msg]"
    "map_of (th_nodes h1) nid = Some p1"
    "np_stdin p1 = np_stdin p @ filter (reaches (hx_json X) (network h) nid) [msg]"
    by blast
  with Cons.IH [OF s(2)] show ?case by (auto split: if_splits)
qed

section \<open>Recorded operations\<close>

text \<open>The fields of an invocation, as \<open>run_nemesis\<close> passes them to \<open>send_operation\<close>.\<close>

fun invocation_of :: "'j maelstrom_command \<Rightarrow> nat \<Rightarrow> 'j history_entry" where
  "invocation_of c t =
     (case op c of
        Read key \<Rightarrow> invoke_entry (msg_id c) (client_src c) ''read'' key None None None t
      | Write key v \<Rightarrow> invoke_entry (msg_id c) (client_src c) ''write'' key (Some v) None None t
      | Cas key old new \<Rightarrow>
          invoke_entry (msg_id c) (client_src c) ''cas'' key None (Some old) (Some new) t)"

text \<open>The entry \<open>process_response\<close> makes of a message a node has written.\<close>

definition completion_of :: "'j json_ops \<Rightarrow> 'j out_msg \<Rightarrow> nat \<Rightarrow> 'j history_entry" where
  "completion_of J m t = response_entry J (out_json J m) t"

text \<open>The operation the checker pairs from the two.\<close>

definition recorded_op ::
    "'j json_ops \<Rightarrow> 'j maelstrom_command \<Rightarrow> 'j out_msg \<Rightarrow> nat \<Rightarrow> nat \<Rightarrow> 'j linear_op" where
  "recorded_op J c m t0 t1 =
     (let e = completion_of J m t1
      in completed_op (invocation_of c t0) e (he_value e) (event_type e = ''ok'') t1)"

fun succeeded :: "'j kv_result \<Rightarrow> bool" where
  "succeeded Not_Found = False"
| "succeeded Precondition_Failed = False"
| "succeeded _ = True"

text \<open>Results a node can give to an operation, and results the checker tells apart.\<close>

fun result_fits :: "'j kv_op \<Rightarrow> 'j kv_result \<Rightarrow> bool" where
  "result_fits (Read _) r \<longleftrightarrow> r = Not_Found \<or> (\<exists>v. r = Value v)"
| "result_fits (Write _ _) r \<longleftrightarrow> r = Written"
| "result_fits (Cas _ _ _) r \<longleftrightarrow> r = Swapped \<or> r = Not_Found \<or> r = Precondition_Failed"

fun results_agree :: "'j kv_op \<Rightarrow> 'j kv_result \<Rightarrow> 'j kv_result \<Rightarrow> bool" where
  "results_agree (Cas _ _ _) r r' \<longleftrightarrow> succeeded r = succeeded r'"
| "results_agree _ r r' \<longleftrightarrow> r = r'"

lemma kv_spec_fits: "result_fits q (snd (kv_spec d q))"
  by (cases q) (auto split: option.splits)

context json_lib
begin

lemma completion_of_fields:
  "event_type (completion_of J (reply_msg i c r) t) = (if succeeded r then ''ok'' else ''fail'')"
  "he_value (completion_of J (reply_msg i c r) t) = (case r of Value v \<Rightarrow> Some v | _ \<Rightarrow> None)"
  "he_id (completion_of J (reply_msg i c r) t) = msg_id c" "time_ns (completion_of J (reply_msg i c r) t) = t"
  by (cases r; simp add: completion_of_def response_entry_def response_event_def envelope_def
      ends_with_def Let_def)+

text \<open>An invocation and the completion that answers it are paired into the recorded operation.\<close>

lemma pair_recorded:
  assumes "invs (msg_id c) = Some (invocation_of c t0)"
  shows "pair_entry (ops, invs) (completion_of J (reply_msg i c r) t1) =
           (ops @ [recorded_op J c (reply_msg i c r) t0 t1], invs(msg_id c := None))"
  using assms
  by (simp add: pair_entry_def completion_of_fields recorded_op_def Let_def)

lemma recorded_op_fields:
  "lo_id (recorded_op J c (reply_msg i c r) t t') = msg_id c" "lo_key (recorded_op J c (reply_msg i c r) t t') = op_key (op c)"
  "invoke_time (recorded_op J c (reply_msg i c r) t t') = t" "complete_time (recorded_op J c (reply_msg i c r) t t') = t'"
  "wf_op (recorded_op J c (reply_msg i c r) t t')"
  by (cases "op c"; simp add: recorded_op_def completed_op_def invoke_entry_def wf_op_def
      completion_of_fields Let_def)+

text \<open>The checker's model moves as the sequential store does and accepts what agrees with it.\<close>

lemma recorded_op_model:
  assumes "result_fits (op c) r"
  shows "snd (model_obj \<lparr>model_data = d\<rparr> (recorded_op J c (reply_msg i c r) t t')) \<longleftrightarrow>
           results_agree (op c) r (snd (kv_spec d (op c)))"
    and "results_agree (op c) r (snd (kv_spec d (op c))) \<Longrightarrow>
           fst (model_obj \<lparr>model_data = d\<rparr> (recorded_op J c (reply_msg i c r) t t')) =
             \<lparr>model_data = fst (kv_spec d (op c))\<rparr>"
proof -
  note unfold = recorded_op_def completed_op_def invoke_entry_def completion_of_fields
    model_obj_def kv_model_apply_def Let_def
  show "snd (model_obj \<lparr>model_data = d\<rparr> (recorded_op J c (reply_msg i c r) t t')) \<longleftrightarrow>
           results_agree (op c) r (snd (kv_spec d (op c)))"
    using assms by (cases "op c"; cases "d (op_key (op c))") (auto simp: unfold)
  assume "results_agree (op c) r (snd (kv_spec d (op c)))"
  with assms show "fst (model_obj \<lparr>model_data = d\<rparr> (recorded_op J c (reply_msg i c r) t t')) =
             \<lparr>model_data = fst (kv_spec d (op c))\<rparr>"
    by (cases "op c"; cases "d (op_key (op c))") (auto simp: unfold)
qed

text \<open>The operations of a log, recorded with any times, are legal for the checker's model.\<close>

lemma legal_recorded:
  "legal model_obj kv_model_new
     (map (\<lambda>p. recorded_op J (lg ! p) (reply_msg (coordinator (lg ! p)) (lg ! p) (log_result lg p)) (f p) (g p)) [0..<length lg])"
proof -
  have "legal model_obj \<lparr>model_data = replay (take p lg)\<rparr>
      (map (\<lambda>p. recorded_op J (lg ! p) (reply_msg (coordinator (lg ! p)) (lg ! p) (log_result lg p)) (f p) (g p)) [p..<length lg])"
    if "p \<le> length lg" for p
    using that
  proof (induction "length lg - p" arbitrary: p)
    case (Suc k)
    then have p: "p < length lg" by simp
    let ?d = "replay (take p lg)" and ?q = "op (lg ! p)"
    have fits: "result_fits ?q (log_result lg p)"
      by (simp add: log_result_def kv_spec_fits)
    have agree: "results_agree ?q (log_result lg p) (snd (kv_spec ?d ?q))"
      by (cases ?q) (simp_all add: log_result_def)
    have next_store: "replay (take (Suc p) lg) = fst (kv_spec ?d ?q)"
      using p by (simp add: take_Suc_conv_app_nth replay_append)
    have "legal model_obj \<lparr>model_data = replay (take (Suc p) lg)\<rparr>
        (map (\<lambda>p. recorded_op J (lg ! p) (reply_msg (coordinator (lg ! p)) (lg ! p) (log_result lg p)) (f p) (g p)) [Suc p..<length lg])"
      using Suc p by (intro Suc.hyps(1)) simp_all
    then show ?case
      using p recorded_op_model [OF fits, of ?d] agree
      by (simp add: upt_conv_Cons next_store)
  qed simp
  from this [of 0] show ?thesis by (simp add: replay_def kv_model_new_def)
qed

end

section \<open>Properties\<close>

text \<open>
  C13. Delivery respects the injected faults: of a batch of messages exactly those addressed to clients
  are returned, in order, and a node's process receives exactly the messages addressed to it whose
  link is not partitioned, in order, and none while the node is killed.
\<close>

theorem deliver_respects_faults:
  assumes "deliver_messages X h msgs = Inr (rs, h')" "map_of (th_nodes h) nid = Some p"
  shows "rs = filter (\<lambda>m. to_client (msg_dest (hx_json X) m)) msgs \<and>
         (\<exists>p'. map_of (th_nodes h') nid = Some p' \<and>
           np_stdin p' = np_stdin p @
             filter (\<lambda>m. msg_dest (hx_json X) m = nid \<and> starts_with_char (CHR ''n'') nid \<and>
                        \<not> to_client nid \<and> \<not> is_partitioned (network h) (msg_src (hx_json X) m) nid \<and>
                        \<not> is_killed (network h) nid) msgs)"
  using deliver_messages_effect [of X "[]" h msgs rs h' nid p] assms
  unfolding deliver_messages_def reaches_def by simp

text \<open>A harness of two nodes, cut off from each other or not.\<close>

definition pair_harness :: "network_simulator \<Rightarrow> json_value test_harness" where
  "pair_harness net =
     (let p = \<lparr>np_alive = True, np_reading = True, np_stdin = [], np_rx = []\<rparr>
      in \<lparr>th_nodes = [(''n0'', p), (''n1'', p)], th_node_ids = [''n0'', ''n1''], network = net,
          history = [], next_op_id = 1, binary_path = '''', start_time = 0, clock_reads = 0,
          spawned = 2\<rparr>)"

definition pair_os :: "json_value harness_env" where
  "pair_os = \<lparr>hx_json = value_json, hx_clk = (\<lambda>k. k), hx_spawn = (\<lambda>_ _. None), hx_keys = id\<rparr>"

definition pair_msgs :: "json_value list" where
  "pair_msgs = [out_json value_json (Omnipaxos_Msg ''n0'' ''n1'' ''x''),
                out_json value_json (Write_Ok ''n0'' ''c1'' 1)]"

theorem deliver_respects_faults_witness:
  "\<exists>h'. deliver_messages pair_os (pair_harness (split_brain simulator_new [''n0'', ''n1'']))
          pair_msgs = Inr ([out_json value_json (Write_Ok ''n0'' ''c1'' 1)], h') \<and>
        (\<exists>p'. map_of (th_nodes h') ''n1'' = Some p' \<and> np_stdin p' = [])"
proof -
  let ?net = "split_brain simulator_new [''n0'', ''n1'']"
  let ?h = "pair_harness ?net"
  have cut: "is_partitioned ?net ''n0'' ''n1''" by (simp add: split_brain_partitioned)
  have run: "deliver_messages pair_os ?h pair_msgs =
      Inr ([out_json value_json (Write_Ok ''n0'' ''c1'' 1)], ?h)"
    using cut
    by (simp add: deliver_messages_def deliver_one_def pair_msgs_def pair_os_def msg_dest_def
        msg_src_def envelope_def value_json_def to_client_def starts_with_char_def pair_harness_def
        Let_def)
  have "map_of (th_nodes ?h) ''n1'' =
      Some \<lparr>np_alive = True, np_reading = True, np_stdin = [], np_rx = []\<rparr>"
    by (simp add: pair_harness_def Let_def)
  from deliver_respects_faults [OF run this] run cut show ?thesis
    by (simp add: pair_msgs_def pair_os_def msg_dest_def msg_src_def envelope_def value_json_def
        pair_harness_def Let_def)
qed

text \<open>
  C12. The checker judges a node's reply by the sequential store: recorded in the history, an operation
  and the reply a node gives to it are accepted by the checker's model in a state \<open>d\<close> exactly when
  the reply agrees with what the store does in state \<open>d\<close> (for a compare-and-swap: success or
  failure, whatever the reason), and the model then moves to the same state as the store.
\<close>

theorem recorded_reply_judged:
  assumes "json_lib J" "result_fits (op c) r"
  shows "(snd (model_obj \<lparr>model_data = d\<rparr> (recorded_op J c (reply_msg i c r) t t')) \<longleftrightarrow>
            results_agree (op c) r (snd (kv_spec d (op c)))) \<and>
         (results_agree (op c) r (snd (kv_spec d (op c))) \<longrightarrow>
            fst (model_obj \<lparr>model_data = d\<rparr> (recorded_op J c (reply_msg i c r) t t')) =
              \<lparr>model_data = fst (kv_spec d (op c))\<rparr>)"
  using json_lib.recorded_op_model [OF assms] by blast

definition judged_read :: "json_value maelstrom_command" where
  "judged_read = \<lparr>coordinator = ''n0'', client_src = ''c1'', msg_id = 1, op = Read ''x''\<rparr>"

theorem recorded_reply_judged_witness:
  "snd (model_obj \<lparr>model_data = [''x'' \<mapsto> JNum 7]\<rparr> (recorded_op value_json judged_read (reply_msg ''n0'' judged_read (Value (JNum 7))) 0 1)) \<and>
   \<not> snd (model_obj \<lparr>model_data = [''x'' \<mapsto> JNum 8]\<rparr> (recorded_op value_json judged_read (reply_msg ''n0'' judged_read (Value (JNum 7))) 0 1))"
  using recorded_reply_judged [OF vj.json_lib_axioms, of judged_read "Value (JNum 7)"]
  by (simp add: judged_read_def)


end
