(* ===== verification/KV_Store.thy ===== *)
theory KV_Store
  imports Prelude
begin

text \<open>
  The data shared by server and client (\<open>src/common.rs\<close>) and the server's database
  (\<open>src/server/database.rs\<close>): commands, messages, the snapshot type and \<open>handle_command\<close>. The
  database is shown to return the last value written, and the snapshot to hold the database; its
  merge is right exactly for the keys whose deletion the delta records.
\<close>

section \<open>Commands and messages\<close>

datatype kv_command = Put string string | Delete string | Get string

record command =
  cmd_client_id :: u64
  cmd_coordinator_id :: u64
  cmd_id :: nat
  kv_cmd :: kv_command

text \<open>Milliseconds as \<open>i64\<close>: a word, read with \<open>sint\<close>.\<close>

type_synonym timestamp = "64 word"

datatype registration_message = NodeRegister u64 | ClientRegister

datatype 'm cluster_message = OmniPaxosMessage 'm | LeaderStartSignal timestamp

datatype client_message = Append nat kv_command

datatype server_message =
    WriteResp nat
  | ReadResp nat "string option"
  | StartSignal timestamp

fun command_id :: "server_message \<Rightarrow> nat res" where
  "command_id (WriteResp i) = Inr i"
| "command_id (ReadResp i _) = Inr i"
| "command_id (StartSignal _) = Inl (Panic ''not implemented'')"

section \<open>The database\<close>

record database =
  db :: "string \<rightharpoonup> string"

definition database_new :: database where
  "database_new = \<lparr>db = Map.empty\<rparr>"

fun handle_command :: "database \<Rightarrow> kv_command \<Rightarrow> string option option \<times> database" where
  "handle_command d (Put key v) = (None, d\<lparr>db := (db d)(key \<mapsto> v)\<rparr>)"
| "handle_command d (Delete key) = (None, d\<lparr>db := (db d)(key := None)\<rparr>)"
| "handle_command d (Get key) = (Some (db d key), d)"

section \<open>Snapshots\<close>

record kv_snapshot =
  snapshotted :: "string \<rightharpoonup> string"
  deleted_keys :: "string list"

fun kv_snapshot_entry :: "kv_snapshot \<Rightarrow> command \<Rightarrow> kv_snapshot" where
  "kv_snapshot_entry s e =
     (case kv_cmd e of
        Put key v \<Rightarrow> s\<lparr>snapshotted := (snapshotted s)(key \<mapsto> v)\<rparr>
      | Delete key \<Rightarrow>
          (let removed = snapshotted s key; s' = s\<lparr>snapshotted := (snapshotted s)(key := None)\<rparr>
           in if removed = None then s'\<lparr>deleted_keys := deleted_keys s' @ [key]\<rparr> else s')
      | Get _ \<Rightarrow> s)"

definition kv_snapshot_create :: "command list \<Rightarrow> kv_snapshot" where
  "kv_snapshot_create entries =
     (let s = foldl kv_snapshot_entry \<lparr>snapshotted = Map.empty, deleted_keys = []\<rparr> entries
      in s\<lparr>deleted_keys := filter (\<lambda>k. snapshotted s k = None) (deleted_keys s)\<rparr>)"

text \<open>Insert every binding of the delta, remove every key it records as deleted, forget those.\<close>

definition kv_snapshot_merge :: "kv_snapshot \<Rightarrow> kv_snapshot \<Rightarrow> kv_snapshot" where
  "kv_snapshot_merge self delta =
     \<lparr>snapshotted = foldl (\<lambda>m k. m(k := None)) (snapshotted self ++ snapshotted delta)
                     (deleted_keys delta),
      deleted_keys = []\<rparr>"

definition kv_use_snapshots :: bool where
  "kv_use_snapshots = True"

section \<open>What was written last\<close>

text \<open>The effect of a command on one key: \<open>None\<close> when it does not write the key.\<close>

fun writes :: "string \<Rightarrow> kv_command \<Rightarrow> string option option" where
  "writes k (Put key v) = (if key = k then Some (Some v) else None)"
| "writes k (Delete key) = (if key = k then Some None else None)"
| "writes k (Get _) = None"

text \<open>All writes of a key by a sequence of commands, in order.\<close>

definition key_writes :: "string \<Rightarrow> kv_command list \<Rightarrow> string option list" where
  "key_writes k cs = List.map_filter (writes k) cs"

lemma key_writes_simps [simp]:
  "key_writes k [] = []"
  "key_writes k (c # cs) = (case writes k c of None \<Rightarrow> key_writes k cs | Some w \<Rightarrow> w # key_writes k cs)"
  by (simp_all add: key_writes_def List.map_filter_def split: option.split)

lemma key_writes_append [simp]: "key_writes k (xs @ ys) = key_writes k xs @ key_writes k ys"
  by (induction xs) (simp_all split: option.split)

text \<open>Executing commands: the resulting binding of a key is its last write.\<close>

abbreviation exec :: "database \<Rightarrow> kv_command list \<Rightarrow> database" where
  "exec d cs \<equiv> foldl (\<lambda>d c. snd (handle_command d c)) d cs"

lemma handle_command_key:
  "db (snd (handle_command d c)) k = (case writes k c of None \<Rightarrow> db d k | Some w \<Rightarrow> w)"
  by (cases c) simp_all

lemma exec_key: "db (exec d cs) k = last (db d k # key_writes k cs)"
  by (induction cs arbitrary: d) (simp_all add: handle_command_key split: option.split)

section \<open>Snapshots and the database\<close>

abbreviation kv_cmds :: "command list \<Rightarrow> kv_command list" where
  "kv_cmds es \<equiv> map kv_cmd es"

lemma kv_snapshot_entry_key:
  "snapshotted (kv_snapshot_entry s e) k =
     (case writes k (kv_cmd e) of None \<Rightarrow> snapshotted s k | Some w \<Rightarrow> w)"
  by (cases "kv_cmd e") (simp_all add: Let_def)

lemma foldl_snapshot_key:
  "snapshotted (foldl kv_snapshot_entry s es) k = last (snapshotted s k # key_writes k (kv_cmds es))"
  by (induction es arbitrary: s)
    (simp_all add: kv_snapshot_entry_key split: option.split del: kv_snapshot_entry.simps)

lemma kv_snapshot_create_key:
  "snapshotted (kv_snapshot_create es) k = last (None # key_writes k (kv_cmds es))"
  by (simp add: kv_snapshot_create_def foldl_snapshot_key Let_def)

text \<open>
  A key is recorded as deleted while the entries are read exactly when some deletion finds it absent:
  the first write deletes it, or two deletions follow each other.
\<close>

fun finds_absent :: "string option \<Rightarrow> string option list \<Rightarrow> bool" where
  "finds_absent v [] = False"
| "finds_absent v (w # ws) = ((w = None \<and> v = None) \<or> finds_absent w ws)"

lemma kv_snapshot_entry_deleted:
  "k \<in> set (deleted_keys (kv_snapshot_entry s e)) \<longleftrightarrow>
     k \<in> set (deleted_keys s) \<or> (writes k (kv_cmd e) = Some None \<and> snapshotted s k = None)"
  by (cases "kv_cmd e") (auto simp: Let_def)

lemma foldl_snapshot_deleted:
  "k \<in> set (deleted_keys (foldl kv_snapshot_entry s es)) \<longleftrightarrow>
     k \<in> set (deleted_keys s) \<or> finds_absent (snapshotted s k) (key_writes k (kv_cmds es))"
  by (induction es arbitrary: s)
    (auto simp: kv_snapshot_entry_key kv_snapshot_entry_deleted split: option.split
      simp del: kv_snapshot_entry.simps)

lemma kv_snapshot_create_deleted:
  "k \<in> set (deleted_keys (kv_snapshot_create es)) \<longleftrightarrow>
     finds_absent None (key_writes k (kv_cmds es)) \<and> last (None # key_writes k (kv_cmds es)) = None"
proof -
  let ?s = "foldl kv_snapshot_entry \<lparr>snapshotted = Map.empty, deleted_keys = []\<rparr> es"
  have "k \<in> set (deleted_keys (kv_snapshot_create es)) \<longleftrightarrow>
      k \<in> set (deleted_keys ?s) \<and> snapshotted ?s k = None"
    by (simp add: kv_snapshot_create_def Let_def conj_commute)
  then show ?thesis by (simp add: foldl_snapshot_deleted foldl_snapshot_key)
qed

lemma foldl_remove: "foldl (\<lambda>m k. m(k := None)) m ks k = (if k \<in> set ks then None else m k)"
  by (induction ks arbitrary: m) auto

lemma last_Cons_None: "ws \<noteq> [] \<Longrightarrow> last (v # ws) = last (v' # ws)"
  by simp

text \<open>Merging a delta gives a key its right value except when its deletion is not recorded.\<close>

lemma kv_snapshot_merge_key:
  "snapshotted (kv_snapshot_merge (kv_snapshot_create xs) (kv_snapshot_create ys)) k =
     (let ws = key_writes k (kv_cmds ys); v = last (None # key_writes k (kv_cmds xs))
      in if ws \<noteq> [] \<and> last ws = None \<and> \<not> finds_absent None ws then v else last (v # ws))"
proof -
  let ?ws = "key_writes k (kv_cmds ys)" and ?v = "last (None # key_writes k (kv_cmds xs))"
  have merge: "snapshotted (kv_snapshot_merge (kv_snapshot_create xs) (kv_snapshot_create ys)) k =
      (if finds_absent None ?ws \<and> last (None # ?ws) = None then None
       else case last (None # ?ws) of None \<Rightarrow> ?v | Some w \<Rightarrow> Some w)"
    by (simp only: kv_snapshot_merge_def kv_snapshot.simps foldl_remove kv_snapshot_create_deleted
        map_add_def kv_snapshot_create_key)
  show ?thesis
  proof (cases "?ws = []")
    case True
    then show ?thesis by (simp add: merge)
  next
    case False
    then show ?thesis by (cases "last ?ws") (simp_all add: merge Let_def)
  qed
qed

section \<open>Properties\<close>

text \<open>
  C35. A read returns what was written last: after any commands, \<open>Get\<close> gives the value of the last
  \<open>Put\<close> of the key, or none when the key was deleted after it or never written.
\<close>

theorem database_returns_last_write:
  "fst (handle_command (exec database_new cs) (Get k)) =
     Some (case List.map_filter (writes k) (rev cs) of [] \<Rightarrow> None | w # _ \<Rightarrow> w)"
proof -
  have rev: "List.map_filter (writes k) (rev cs) = rev (key_writes k cs)"
    by (simp add: key_writes_def List.map_filter_def rev_map rev_filter)
  have "db (exec database_new cs) k = last (None # key_writes k cs)"
    by (simp add: exec_key database_new_def)
  also have "\<dots> = (case rev (key_writes k cs) of [] \<Rightarrow> None | w # _ \<Rightarrow> w)"
    by (cases "key_writes k cs" rule: rev_cases) simp_all
  finally show ?thesis by (simp add: rev)
qed

text \<open>C36. A snapshot of a log holds exactly the database that executing the log builds.\<close>

theorem kv_snapshot_is_database:
  "snapshotted (kv_snapshot_create es) = db (exec database_new (map kv_cmd es))"
  by (rule ext) (simp add: kv_snapshot_create_key exec_key database_new_def)

text \<open>
  C37. When merging is right: merging the snapshot of a later part of the log into that of an earlier
  part gives a key the value of the whole log, except when the earlier part leaves the key with a
  value and the later part ends with its deletion but never deletes it while it is absent from that
  part.
\<close>

theorem kv_snapshot_merge_right_iff:
  "snapshotted (kv_snapshot_merge (kv_snapshot_create xs) (kv_snapshot_create ys)) k =
     snapshotted (kv_snapshot_create (xs @ ys)) k \<longleftrightarrow>
   \<not> (snapshotted (kv_snapshot_create xs) k \<noteq> None \<and>
      key_writes k (map kv_cmd ys) \<noteq> [] \<and> last (key_writes k (map kv_cmd ys)) = None \<and>
      \<not> finds_absent None (key_writes k (map kv_cmd ys)))"
  by (auto simp: kv_snapshot_merge_key kv_snapshot_create_key Let_def)

definition sample_cmd :: "kv_command \<Rightarrow> command" where
  "sample_cmd c = \<lparr>cmd_client_id = 1, cmd_coordinator_id = 1, cmd_id = 0, kv_cmd = c\<rparr>"

text \<open>
  A deletion that follows a write of the same key in the delta is lost: the delta neither holds
  the key nor records its deletion, so the merged snapshot keeps a value that the log deletes.
\<close>

lemma kv_snapshot_merge_keeps_deleted:
  "snapshotted (kv_snapshot_merge (kv_snapshot_create [sample_cmd (Put ''x'' ''1'')])
     (kv_snapshot_create [sample_cmd (Put ''x'' ''2''), sample_cmd (Delete ''x'')])) ''x'' = Some ''1'' \<and>
   snapshotted (kv_snapshot_create
     [sample_cmd (Put ''x'' ''1''), sample_cmd (Put ''x'' ''2''), sample_cmd (Delete ''x'')]) ''x'' = None"
  by (simp add: kv_snapshot_merge_def kv_snapshot_create_def sample_cmd_def)

end
