(* ===== verification/Connections.thy ===== *)
theory Connections
  imports Prelude
begin

text \<open>
  Tables of connections, the interface the networks of server and client share: a message for a peer
  goes into the peer's channel, and a channel that refuses a message is dropped from the table. The
  channel is a parameter (\<open>tokio::sync::mpsc\<close> is not part of the repository): sending gives the
  channel afterwards, or nothing when its receiver is gone.
\<close>

section \<open>Channels\<close>

text \<open>What becomes of a connection when several messages are sent to it.\<close>

fun feed :: "('c \<Rightarrow> 'm \<Rightarrow> 'c option) \<Rightarrow> 'c option \<Rightarrow> 'm list \<Rightarrow> 'c option" where
  "feed chan c [] = c"
| "feed chan None (m # ms) = None"
| "feed chan (Some c) (m # ms) = feed chan (chan c m) ms"

lemma feed_None [simp]: "feed chan None ms = None"
  by (cases ms) simp_all

lemma feed_Cons: "feed chan c (m # ms) = feed chan (Option.bind c (\<lambda>c. chan c m)) ms"
  by (cases c) simp_all

lemma feed_append: "feed chan c (ms @ ms') = feed chan (feed chan c ms) ms'"
  by (induction chan c ms rule: feed.induct) simp_all

text \<open>
  \<open>sent\<close> reads off a channel what it has taken: a message it takes comes after the earlier ones.
\<close>

definition records :: "('c \<Rightarrow> 'm \<Rightarrow> 'c option) \<Rightarrow> ('c \<Rightarrow> 'm list) \<Rightarrow> bool" where
  "records chan sent \<longleftrightarrow> (\<forall>c m c'. chan c m = Some c' \<longrightarrow> sent c' = sent c @ [m])"

lemma feed_records:
  assumes "records chan sent" "feed chan (Some c) ms = Some c'"
  shows "sent c' = sent c @ ms"
  using assms(2)
proof (induction ms arbitrary: c)
  case (Cons m ms)
  then obtain d where "chan c m = Some d" "feed chan (Some d) ms = Some c'" by (cases "chan c m") auto
  with Cons.IH [of d] assms(1) show ?case by (simp add: records_def)
qed simp

text \<open>A channel that stands for a queue, open or closed.\<close>

record 'm queue_channel =
  qc_open :: bool
  qc_sent :: "'m list"

definition queue_send :: "'m queue_channel \<Rightarrow> 'm \<Rightarrow> 'm queue_channel option" where
  "queue_send c m = (if qc_open c then Some (c\<lparr>qc_sent := qc_sent c @ [m]\<rparr>) else None)"

lemma records_queue: "records queue_send qc_sent"
  by (auto simp: records_def queue_send_def)

lemma feed_queue:
  "feed queue_send (Some c) ms =
     (if qc_open c \<or> ms = [] then Some (c\<lparr>qc_sent := qc_sent c @ ms\<rparr>) else None)"
proof (induction ms arbitrary: c)
  case Nil
  then show ?case by simp
next
  case (Cons m ms)
  then show ?case by (simp add: queue_send_def)
qed

section \<open>Writers\<close>

text \<open>
  The writer task of a connection takes what is queued in batches. The messages of a batch are fed one
  by one until the sink refuses one; the flag says whether it took all. What the task does with a batch
  is a parameter of the loop, whose flag says whether the task goes on.
\<close>

fun feed_batch :: "('w \<Rightarrow> 'm \<Rightarrow> 'w option) \<Rightarrow> 'w \<Rightarrow> 'm list \<Rightarrow> bool \<times> 'w" where
  "feed_batch put w [] = (True, w)"
| "feed_batch put w (m # ms) = (case put w m of None \<Rightarrow> (False, w) | Some w' \<Rightarrow> feed_batch put w' ms)"

fun writer_loop :: "('w \<Rightarrow> 'm list \<Rightarrow> bool \<times> 'w) \<Rightarrow> 'w \<Rightarrow> 'm list list \<Rightarrow> bool \<times> 'w" where
  "writer_loop batch w [] = (True, w)"
| "writer_loop batch w (b # bs) =
     (let (go, w') = batch w b in if go then writer_loop batch w' bs else (False, w'))"

section \<open>The interface\<close>

locale connection_table =
  fixes tsend :: "'t \<Rightarrow> 'i \<Rightarrow> 'm \<Rightarrow> 't res"
    and conn :: "'t \<Rightarrow> 'i \<Rightarrow> 'c option"
    and chan :: "'c \<Rightarrow> 'm \<Rightarrow> 'c option"
    and ok :: "'t \<Rightarrow> bool"
  assumes send_one: "ok t \<Longrightarrow> \<exists>t'. tsend t i m = Inr t' \<and> ok t' \<and>
            conn t' = (conn t)(i := Option.bind (conn t i) (\<lambda>c. chan c m))"
begin

text \<open>
  Each peer gets the messages addressed to it, in order, whatever happens to other peers; after the
  first message its channel refuses the peer is not connected any more.
\<close>

lemma send_all:
  assumes "ok t"
  shows "\<exists>t'. fold_res (\<lambda>t (i, m). tsend t i m) t ims = Inr t' \<and> ok t' \<and>
           (\<forall>j. conn t' j = feed chan (conn t j) (map snd (filter (\<lambda>(i, m). i = j) ims)))"
  using assms
proof (induction ims arbitrary: t)
  case Nil
  then show ?case by simp
next
  case (Cons im ims)
  obtain i m where im: "im = (i, m)" by fastforce
  obtain t1 where t1: "tsend t i m = Inr t1" "ok t1"
    "conn t1 = (conn t)(i := Option.bind (conn t i) (\<lambda>c. chan c m))"
    using send_one [OF Cons.prems] by blast
  obtain t' where "fold_res (\<lambda>t (i, m). tsend t i m) t1 ims = Inr t'" "ok t'"
    "\<forall>j. conn t' j = feed chan (conn t1 j) (map snd (filter (\<lambda>(i, m). i = j) ims))"
    using Cons.IH [OF t1(2)] by blast
  with t1 show ?case by (auto simp: im feed_Cons)
qed

text \<open>A lost connection stays lost.\<close>

lemma lost_stays_lost:
  assumes "ok t" "conn t j = None" "fold_res (\<lambda>t (i, m). tsend t i m) t ims = Inr t'"
  shows "conn t' j = None"
  using send_all [OF assms(1), of ims] assms(2,3) by auto

end

end
