(* ===== verification/Server_Config.thy ===== *)
theory Server_Config
  imports Omnipaxos_Interface
begin

text \<open>
  The server's configuration (\<open>src/server/configs.rs\<close>). The \<open>config\<close> crate that merges files and
  environment is a parameter: \<open>load\<close> takes the two file names.
\<close>

record local_config =
  location :: "string option"
  server_id :: op_node_id
  listen_address :: string
  listen_port :: "16 word"
  num_clients :: nat
  output_filepath :: string

record 'q cluster_config =
  nodes :: "op_node_id list"
  node_addrs :: "string list"
  initial_leader :: op_node_id
  initial_flexible_quorum :: "'q option"

record 'q kv_config =
  cfg_local :: local_config
  cfg_cluster :: "'q cluster_config"

definition config_into :: "'q kv_config \<Rightarrow> 'q op_config" where
  "config_into cfg =
     \<lparr>cfg_pid = server_id (cfg_local cfg), cfg_configuration_id = 1,
      cfg_nodes = nodes (cfg_cluster cfg),
      cfg_flexible_quorum = initial_flexible_quorum (cfg_cluster cfg)\<rparr>"

definition config_new ::
    "(string \<Rightarrow> string option) \<Rightarrow> (string \<Rightarrow> string \<Rightarrow> 'e + 'q kv_config) \<Rightarrow> ('e + 'q kv_config) res" where
  "config_new var load =
     bind_res (expect ''Requires SERVER_CONFIG_FILE environment variable to be set''
                 (var ''SERVER_CONFIG_FILE''))
       (\<lambda>local_config_file.
     bind_res (expect ''Requires CLUSTER_CONFIG_FILE environment variable to be set''
                 (var ''CLUSTER_CONFIG_FILE''))
       (\<lambda>cluster_config_file. Inr (load local_config_file cluster_config_file)))"

definition get_peers :: "'q kv_config \<Rightarrow> op_node_id \<Rightarrow> op_node_id list" where
  "get_peers cfg n = filter (\<lambda>i. i \<noteq> n) (nodes (cfg_cluster cfg))"

text \<open>The peers are all other nodes of the cluster.\<close>

lemma set_get_peers: "set (get_peers cfg n) = set (nodes (cfg_cluster cfg)) - {n}"
  by (auto simp: get_peers_def)

lemma length_get_peers:
  "distinct (nodes (cfg_cluster cfg)) \<Longrightarrow> n \<in> set (nodes (cfg_cluster cfg)) \<Longrightarrow>
     length (get_peers cfg n) = length (nodes (cfg_cluster cfg)) - 1"
  by (metis One_nat_def card_Diff_singleton distinct_card distinct_filter get_peers_def set_get_peers)

end
