(* ===== verification/Server_Network.thy ===== *)
theory Server_Network
  imports "HOL-Library.AList" KV_Store Connections Server_Config
begin

text \<open>
  The server's network (\<open>src/server/network.rs\<close>): the slot table of peer connections, the table of
  client connections, the handshake that numbers clients, start-up, and the reader and writer loops of
  a connection. Sockets, tasks and channels are parameters: what a socket address resolves to, the
  channel of a new connection, and whether a channel takes a message.
\<close>

section \<open>State\<close>

record 'ch connection =
  conn_id :: u64
  conn_out :: 'ch

record ('p, 'c) server_network =
  net_peers :: "op_node_id list"
  peer_connections :: "'p connection option list"
  client_connections :: "(u64 \<times> 'c connection) list"
  max_client_id :: u64
  batch_size :: nat

datatype ('p, 'c) new_connection = ToPeer "'p connection" | ToClient "'c connection"

record ('p, 'c, 'm) channels =
  peer_chan :: "'p \<Rightarrow> 'm cluster_message \<Rightarrow> 'p option"
  client_chan :: "'c \<Rightarrow> server_message \<Rightarrow> 'c option"

section \<open>Start-up\<close>

definition get_addrs ::
    "(string \<Rightarrow> 'a option) \<Rightarrow> (string \<Rightarrow> 'a list option) \<Rightarrow> 'q kv_config \<Rightarrow> ('a \<times> 'a list) res" where
  "get_addrs from_str to_socket_addrs cfg =
     (let addr = listen_address (cfg_local cfg) @ '':'' @ show_nat (unat (listen_port (cfg_local cfg)))
      in bind_res (expect (addr @ '' is an invalid listen address'') (from_str addr))
           (\<lambda>listen.
         bind_res (map_res (\<lambda>s. bind_res (expect (''Address '' @ s @ '' is invalid'') (to_socket_addrs s))
                                 (\<lambda>addrs. unwrap (case addrs of [] \<Rightarrow> None | x # _ \<Rightarrow> Some x)))
                     (node_addrs (cfg_cluster cfg)))
           (\<lambda>node_addresses. Inr (listen, node_addresses))))"

definition peer_addresses :: "'q kv_config \<Rightarrow> 'a list \<Rightarrow> (op_node_id \<times> 'a) list" where
  "peer_addresses cfg node_addresses =
     filter (\<lambda>(n, _). n \<noteq> server_id (cfg_local cfg)) (zip (nodes (cfg_cluster cfg)) node_addresses)"

definition network_empty :: "(op_node_id \<times> 'a) list \<Rightarrow> nat \<Rightarrow> ('p, 'c) server_network" where
  "network_empty peers batch =
     \<lparr>net_peers = map fst peers, peer_connections = replicate (length peers) None,
      client_connections = [], max_client_id = 0, batch_size = batch\<rparr>"

text \<open>The handshake: a node names itself, a client is given the next number.\<close>

definition handle_incoming_connection ::
    "('s \<Rightarrow> 'p) \<Rightarrow> ('s \<Rightarrow> 'c) \<Rightarrow> 's \<Rightarrow> ('e + registration_message) option \<Rightarrow> ('p, 'c) server_network
       \<Rightarrow> ('p, 'c) new_connection option \<times> ('p, 'c) server_network" where
  "handle_incoming_connection peer_of client_of stream reg net =
     (case reg of
        Some (Inr (NodeRegister n)) \<Rightarrow> (Some (ToPeer \<lparr>conn_id = n, conn_out = peer_of stream\<rparr>), net)
      | Some (Inr ClientRegister) \<Rightarrow>
          (let next_client_id = max_client_id net + 1
           in (Some (ToClient \<lparr>conn_id = next_client_id, conn_out = client_of stream\<rparr>),
               net\<lparr>max_client_id := next_client_id\<rparr>))
      | Some (Inl _) \<Rightarrow> (None, net)
      | None \<Rightarrow> (None, net))"

text \<open>
  The listener accepts connections in a loop; what it could not accept is skipped. Every accepted
  stream does its own handshake (the registration it sent comes with the stream).
\<close>

fun connection_listener ::
    "('s \<Rightarrow> 'p) \<Rightarrow> ('s \<Rightarrow> 'c) \<Rightarrow> ('a + 's \<times> ('e + registration_message) option) list
       \<Rightarrow> ('p, 'c) server_network \<Rightarrow> ('p, 'c) new_connection list" where
  "connection_listener peer_of client_of [] net = []"
| "connection_listener peer_of client_of (Inl err # rs) net = connection_listener peer_of client_of rs net"
| "connection_listener peer_of client_of (Inr (s, reg) # rs) net =
     (let (nc, net') = handle_incoming_connection peer_of client_of s reg net
      in (case nc of None \<Rightarrow> [] | Some c \<Rightarrow> [c]) @ connection_listener peer_of client_of rs net')"

text \<open>The peers a node connects to itself; the others connect to it.\<close>

definition peers_to_connect_to :: "op_node_id \<Rightarrow> (op_node_id \<times> 'a) list \<Rightarrow> (op_node_id \<times> 'a) list" where
  "peers_to_connect_to my_id peers = filter (\<lambda>(p, _). p < my_id) peers"

text \<open>
  A connector tries until the stream is there (the attempts are given as a list), sends its
  registration and hands over the connection; when the registration fails the task ends.
\<close>

fun reconnect :: "('e + 's) list \<Rightarrow> 's option" where
  "reconnect [] = None"
| "reconnect (Inr stream # attempts) = Some stream"
| "reconnect (Inl err # attempts) = reconnect attempts"

definition peer_connector ::
    "('s \<Rightarrow> registration_message \<Rightarrow> 's option) \<Rightarrow> ('s \<Rightarrow> 'p) \<Rightarrow> op_node_id \<Rightarrow> op_node_id \<Rightarrow> ('e + 's) list
       \<Rightarrow> ('p, 'c) new_connection option" where
  "peer_connector send_reg peer_of my_id peer attempts =
     (case reconnect attempts of
        None \<Rightarrow> None
      | Some stream \<Rightarrow>
          (case send_reg stream (NodeRegister my_id) of
             None \<Rightarrow> None
           | Some stream' \<Rightarrow> Some (ToPeer \<lparr>conn_id = peer, conn_out = peer_of stream'\<rparr>)))"

definition spawn_peer_connectors ::
    "('s \<Rightarrow> registration_message \<Rightarrow> 's option) \<Rightarrow> ('s \<Rightarrow> 'p) \<Rightarrow> ('a \<Rightarrow> ('e + 's) list) \<Rightarrow> op_node_id
       \<Rightarrow> (op_node_id \<times> 'a) list \<Rightarrow> ('p, 'c) new_connection option list" where
  "spawn_peer_connectors send_reg peer_of attempts_at my_id peers =
     map (\<lambda>(peer, addr). peer_connector send_reg peer_of my_id peer (attempts_at addr))
       (peers_to_connect_to my_id peers)"

definition cluster_id_to_idx :: "('p, 'c) server_network \<Rightarrow> op_node_id \<Rightarrow> nat option" where
  "cluster_id_to_idx net n = position ((=) n) (net_peers net)"

definition connect ::
    "('p, 'c) server_network \<Rightarrow> ('p, 'c) new_connection \<Rightarrow> ('p, 'c) server_network res" where
  "connect net new_connection =
     (case new_connection of
        ToPeer c \<Rightarrow>
          bind_res (unwrap (cluster_id_to_idx net (conn_id c)))
            (\<lambda>idx. if idx < length (peer_connections net)
                   then Inr (net\<lparr>peer_connections := (peer_connections net)[idx := Some c]\<rparr>)
                   else Inl (Panic ''index out of bounds''))
      | ToClient c \<Rightarrow>
          Inr (net\<lparr>client_connections := AList.update (conn_id c) c (client_connections net)\<rparr>))"

definition all_connected :: "nat \<Rightarrow> ('p, 'c) server_network \<Rightarrow> bool" where
  "all_connected n net \<longleftrightarrow>
     length (client_connections net) \<ge> n \<and> list_all (\<lambda>c. c \<noteq> None) (peer_connections net)"

text \<open>The loop of \<open>initialize_connections\<close>: the flag says whether it has ended.\<close>

fun initialize_connections ::
    "nat \<Rightarrow> ('p, 'c) server_network \<Rightarrow> ('p, 'c) new_connection list
       \<Rightarrow> (bool \<times> ('p, 'c) server_network) res" where
  "initialize_connections n net [] = Inr (False, net)"
| "initialize_connections n net (c # cs) =
     bind_res (connect net c)
       (\<lambda>net'. if all_connected n net' then Inr (True, net')
               else initialize_connections n net' cs)"

text \<open>\<open>Network::new\<close>: the connections arrive as the given list.\<close>

definition network_new ::
    "(string \<Rightarrow> 'a option) \<Rightarrow> (string \<Rightarrow> 'a list option) \<Rightarrow> 'q kv_config \<Rightarrow> nat
       \<Rightarrow> ('p, 'c) new_connection list \<Rightarrow> (bool \<times> ('p, 'c) server_network) res" where
  "network_new from_str to_socket_addrs cfg batch cs =
     bind_res (get_addrs from_str to_socket_addrs cfg)
       (\<lambda>(listen, node_addresses).
          initialize_connections (num_clients (cfg_local cfg))
            (network_empty (peer_addresses cfg node_addresses) batch) cs)"

section \<open>Sending\<close>

definition send_to_cluster ::
    "('p, 'c, 'm) channels \<Rightarrow> ('p, 'c) server_network \<Rightarrow> op_node_id \<Rightarrow> 'm cluster_message
       \<Rightarrow> ('p, 'c) server_network res" where
  "send_to_cluster C net to msg =
     (case cluster_id_to_idx net to of
        None \<Rightarrow> Inr net
      | Some idx \<Rightarrow>
          if \<not> idx < length (peer_connections net) then Inl (Panic ''index out of bounds'')
          else (case peer_connections net ! idx of
                  None \<Rightarrow> Inr net
                | Some c \<Rightarrow>
                    Inr (net\<lparr>peer_connections := (peer_connections net)
                      [idx := (case peer_chan C (conn_out c) msg of
                                 None \<Rightarrow> None
                               | Some out \<Rightarrow> Some (c\<lparr>conn_out := out\<rparr>))]\<rparr>)))"

definition send_to_client ::
    "('p, 'c, 'm) channels \<Rightarrow> ('p, 'c) server_network \<Rightarrow> u64 \<Rightarrow> server_message
       \<Rightarrow> ('p, 'c) server_network" where
  "send_to_client C net to msg =
     (case map_of (client_connections net) to of
        None \<Rightarrow> net
      | Some c \<Rightarrow>
          net\<lparr>client_connections :=
            (case client_chan C (conn_out c) msg of
               None \<Rightarrow> AList.delete to (client_connections net)
             | Some out \<Rightarrow> AList.update to (c\<lparr>conn_out := out\<rparr>) (client_connections net))\<rparr>)"

definition network_shutdown :: "('p, 'c) server_network \<Rightarrow> ('p, 'c) server_network" where
  "network_shutdown net =
     net\<lparr>client_connections := [], peer_connections := replicate (length (net_peers net)) None\<rparr>"

section \<open>Reader and writer loops of a connection\<close>

text \<open>
  A chunk of incoming messages. The peer's reader stops the chunk when the server's queue is closed;
  the client's reader panics then. What does not decode is skipped by both.
\<close>

fun peer_reader_chunk :: "('q \<Rightarrow> u64 \<times> 'm \<Rightarrow> 'q option) \<Rightarrow> u64 \<Rightarrow> 'q \<Rightarrow> ('e + 'm) list \<Rightarrow> 'q" where
  "peer_reader_chunk deliver i q [] = q"
| "peer_reader_chunk deliver i q (Inr m # ms) =
     (case deliver q (i, m) of None \<Rightarrow> q | Some q' \<Rightarrow> peer_reader_chunk deliver i q' ms)"
| "peer_reader_chunk deliver i q (Inl e # ms) = peer_reader_chunk deliver i q ms"

fun client_reader_chunk ::
    "('q \<Rightarrow> u64 \<times> 'm \<Rightarrow> 'q option) \<Rightarrow> u64 \<Rightarrow> 'q \<Rightarrow> ('e + 'm) list \<Rightarrow> 'q res" where
  "client_reader_chunk deliver i q [] = Inr q"
| "client_reader_chunk deliver i q (Inr m # ms) =
     bind_res (unwrap (deliver q (i, m))) (\<lambda>q'. client_reader_chunk deliver i q' ms)"
| "client_reader_chunk deliver i q (Inl e # ms) = client_reader_chunk deliver i q ms"

text \<open>
  A batch of outgoing messages: fed one by one, then flushed. The flag says whether the writer goes on.
  The peer's writer flushes what it has fed before an error, the client's writer ends at once.
\<close>

definition peer_writer_batch ::
    "('w \<Rightarrow> 'm \<Rightarrow> 'w option) \<Rightarrow> ('w \<Rightarrow> 'w option) \<Rightarrow> 'w \<Rightarrow> 'm list \<Rightarrow> bool \<times> 'w" where
  "peer_writer_batch put flush w buffer =
     (let (_, w') = feed_batch put w buffer
      in case flush w' of None \<Rightarrow> (False, w') | Some w'' \<Rightarrow> (True, w''))"

definition client_writer_batch ::
    "('w \<Rightarrow> 'm \<Rightarrow> 'w option) \<Rightarrow> ('w \<Rightarrow> 'w option) \<Rightarrow> 'w \<Rightarrow> 'm list \<Rightarrow> bool \<times> 'w" where
  "client_writer_batch put flush w buffer =
     (let (fed, w') = feed_batch put w buffer
      in if \<not> fed then (False, w')
         else (case flush w' of None \<Rightarrow> (False, w') | Some w'' \<Rightarrow> (True, w'')))"

text \<open>The tasks: chunk by chunk and batch by batch. A \<open>break\<close> in the peer's reader leaves only the chunk.\<close>

definition peer_reader ::
    "('q \<Rightarrow> u64 \<times> 'm \<Rightarrow> 'q option) \<Rightarrow> u64 \<Rightarrow> 'q \<Rightarrow> ('e + 'm) list list \<Rightarrow> 'q" where
  "peer_reader deliver i q chunks = foldl (peer_reader_chunk deliver i) q chunks"

definition client_reader ::
    "('q \<Rightarrow> u64 \<times> 'm \<Rightarrow> 'q option) \<Rightarrow> u64 \<Rightarrow> 'q \<Rightarrow> ('e + 'm) list list \<Rightarrow> 'q res" where
  "client_reader deliver i q chunks = fold_res (client_reader_chunk deliver i) q chunks"

definition peer_writer ::
    "('w \<Rightarrow> 'm \<Rightarrow> 'w option) \<Rightarrow> ('w \<Rightarrow> 'w option) \<Rightarrow> 'w \<Rightarrow> 'm list list \<Rightarrow> bool \<times> 'w" where
  "peer_writer put flush = writer_loop (peer_writer_batch put flush)"

definition client_writer ::
    "('w \<Rightarrow> 'm \<Rightarrow> 'w option) \<Rightarrow> ('w \<Rightarrow> 'w option) \<Rightarrow> 'w \<Rightarrow> 'm list list \<Rightarrow> bool \<times> 'w" where
  "client_writer put flush = writer_loop (client_writer_batch put flush)"

lemma map_res_length: "map_res f xs = Inr ys \<Longrightarrow> length ys = length xs"
  by (induction xs arbitrary: ys) (auto split: sum.splits)

section \<open>The invariant of the tables\<close>

text \<open>One slot per peer, the connection in a slot belongs to its peer, and client numbers are the keys.\<close>

definition net_inv :: "('p, 'c) server_network \<Rightarrow> bool" where
  "net_inv net \<longleftrightarrow>
     length (peer_connections net) = length (net_peers net) \<and>
     (\<forall>i<length (net_peers net). \<forall>c. peer_connections net ! i = Some c \<longrightarrow> conn_id c = net_peers net ! i) \<and>
     distinct (map fst (client_connections net)) \<and>
     (\<forall>(k, c)\<in>set (client_connections net). conn_id c = k)"

definition peer_channel :: "('p, 'c) server_network \<Rightarrow> op_node_id \<Rightarrow> 'p option" where
  "peer_channel net n =
     (case cluster_id_to_idx net n of
        None \<Rightarrow> None
      | Some idx \<Rightarrow> map_option conn_out (peer_connections net ! idx))"

definition client_channel :: "('p, 'c) server_network \<Rightarrow> u64 \<Rightarrow> 'c option" where
  "client_channel net n = map_option conn_out (map_of (client_connections net) n)"

lemma idx_bound: "net_inv net \<Longrightarrow> cluster_id_to_idx net n = Some i \<Longrightarrow> i < length (peer_connections net)"
  by (auto simp: net_inv_def cluster_id_to_idx_def dest: position_Some)

lemma idx_peer: "cluster_id_to_idx net n = Some i \<Longrightarrow> net_peers net ! i = n"
  using position_Some [of "(=) n" "net_peers net" i] by (simp add: cluster_id_to_idx_def)

lemma network_empty_inv [simp]: "net_inv (network_empty peers batch)"
  by (simp add: net_inv_def network_empty_def)

lemma set_update: "(k', v') \<in> set (AList.update k v al) \<Longrightarrow> (k', v') = (k, v) \<or> (k', v') \<in> set al"
  by (induction al) (auto split: if_splits)

lemma set_delete: "x \<in> set (AList.delete k al) \<Longrightarrow> x \<in> set al"
  by (simp add: AList.delete_eq)

lemma update_slot_inv:
  assumes "net_inv net" "cluster_id_to_idx net n = Some i" "\<forall>c. x = Some c \<longrightarrow> conn_id c = n"
  shows "net_inv (net\<lparr>peer_connections := (peer_connections net)[i := x]\<rparr>)"
  using assms idx_peer [OF assms(2)] idx_bound [OF assms(1,2)]
  by (auto simp: net_inv_def nth_list_update split: if_splits)

lemma update_client_inv:
  assumes "net_inv net" "conn_id c = k"
  shows "net_inv (net\<lparr>client_connections := AList.update k c (client_connections net)\<rparr>)"
  using assms by (auto simp: net_inv_def distinct_update dest!: set_update)

lemma connect_inv: "net_inv net \<Longrightarrow> connect net nc = Inr net' \<Longrightarrow> net_inv net'"
  by (auto simp: connect_def bind_res_eq_Inr update_client_inv
      intro!: update_slot_inv split: new_connection.splits if_splits)

lemma initialize_connections_inv:
  "initialize_connections n net cs = Inr (b, net') \<Longrightarrow> net_inv net \<Longrightarrow>
     net_inv net' \<and> (b \<longrightarrow> all_connected n net')"
  by (induction n net cs rule: initialize_connections.induct)
    (auto simp: bind_res_eq_Inr dest: connect_inv split: if_splits)

lemma network_new_inv:
  assumes "network_new from_str to_socket_addrs cfg batch cs = Inr (b, net)"
  shows "net_inv net \<and> (b \<longrightarrow> all_connected (num_clients (cfg_local cfg)) net)"
  using assms by (auto simp: network_new_def bind_res_eq_Inr dest!: initialize_connections_inv)

text \<open>
  The peers of a new network are the other nodes that are given an address: with fewer addresses than
  nodes, \<open>zip\<close> drops the last nodes silently. When start-up ends they are connected.
\<close>

lemma connect_peers: "connect net nc = Inr net' \<Longrightarrow> net_peers net' = net_peers net"
  by (auto simp: connect_def bind_res_eq_Inr split: new_connection.splits if_splits)

lemma initialize_connections_peers:
  "initialize_connections n net cs = Inr (b, net') \<Longrightarrow> net_peers net' = net_peers net"
  by (induction n net cs rule: initialize_connections.induct)
    (auto simp: bind_res_eq_Inr dest: connect_peers split: if_splits)

lemma map_fst_zip_filter: "map fst (filter (\<lambda>(n, _). n \<noteq> i) (zip ns as)) = filter (\<lambda>n. n \<noteq> i) (take (length as) ns)"
  by (induction ns as rule: list_induct2') auto

lemma network_new_peers:
  assumes "network_new from_str to_socket_addrs cfg batch cs = Inr (b, net)"
  shows "net_peers net = filter (\<lambda>n. n \<noteq> server_id (cfg_local cfg))
           (take (length (node_addrs (cfg_cluster cfg))) (nodes (cfg_cluster cfg)))"
proof -
  from assms obtain listen addrs where addrs: "get_addrs from_str to_socket_addrs cfg = Inr (listen, addrs)"
    and init: "initialize_connections (num_clients (cfg_local cfg))
      (network_empty (peer_addresses cfg addrs) batch) cs = Inr (b, net)"
    by (auto simp: network_new_def bind_res_eq_Inr)
  have "length addrs = length (node_addrs (cfg_cluster cfg))"
    using addrs by (auto simp: get_addrs_def bind_res_eq_Inr Let_def dest!: map_res_length)
  with initialize_connections_peers [OF init] show ?thesis
    by (simp add: network_empty_def peer_addresses_def map_fst_zip_filter)
qed

lemma all_connected_channel:
  assumes "net_inv net" "all_connected n net" "p \<in> set (net_peers net)"
  shows "peer_channel net p \<noteq> None"
proof -
  obtain i where i: "cluster_id_to_idx net p = Some i"
    using assms(3) position_None_iff [of "(=) p" "net_peers net"]
    by (cases "cluster_id_to_idx net p") (auto simp: cluster_id_to_idx_def)
  from idx_bound [OF assms(1) i] assms(2) have "peer_connections net ! i \<noteq> None"
    by (simp add: all_connected_def list_all_length)
  with i show ?thesis by (simp add: peer_channel_def)
qed

section \<open>The tables as connection tables\<close>

lemma send_to_cluster_ok:
  assumes "net_inv net"
  shows "\<exists>net'. send_to_cluster C net n m = Inr net' \<and> net_inv net' \<and>
           peer_channel net' = (peer_channel net)(n := Option.bind (peer_channel net n) (\<lambda>c. peer_chan C c m)) \<and>
           client_connections net' = client_connections net"
proof (cases "cluster_id_to_idx net n")
  case None
  with assms show ?thesis by (auto simp: send_to_cluster_def peer_channel_def)
next
  case (Some i)
  have i: "i < length (peer_connections net)" using assms Some by (rule idx_bound)
  show ?thesis
  proof (cases "peer_connections net ! i")
    case None
    with Some i assms show ?thesis by (auto simp: send_to_cluster_def peer_channel_def)
  next
    case slot: (Some c)
    define x where "x = (case peer_chan C (conn_out c) m of
        None \<Rightarrow> None | Some out \<Rightarrow> Some (c\<lparr>conn_out := out\<rparr>))"
    let ?net' = "net\<lparr>peer_connections := (peer_connections net)[i := x]\<rparr>"
    have "send_to_cluster C net n m = Inr ?net'"
      using Some i slot by (simp add: send_to_cluster_def x_def)
    moreover have "conn_id c = n"
      using assms Some slot i idx_peer [OF Some] by (auto simp: net_inv_def)
    then have "net_inv ?net'"
      by (intro update_slot_inv [OF assms Some]) (auto simp: x_def split: option.splits)
    moreover have "peer_channel ?net' k =
        ((peer_channel net)(n := Option.bind (peer_channel net n) (\<lambda>c. peer_chan C c m))) k" for k
    proof (cases "k = n")
      case True
      with Some slot i show ?thesis
        by (simp add: peer_channel_def cluster_id_to_idx_def x_def split: option.split)
    next
      case False
      then have "cluster_id_to_idx net k \<noteq> Some i"
        using Some position_eq_inject [of k "net_peers net" i n] by (auto simp: cluster_id_to_idx_def)
      with False show ?thesis
        by (auto simp: peer_channel_def cluster_id_to_idx_def split: option.split)
    qed
    ultimately show ?thesis by (intro exI [of _ ?net']) (simp add: fun_eq_iff)
  qed
qed

interpretation peers: connection_table
  "send_to_cluster C :: ('p, 'c) server_network \<Rightarrow> _" peer_channel "peer_chan C" net_inv
  for C :: "('p, 'c, 'm) channels"
  by unfold_locales (use send_to_cluster_ok in blast)

lemma send_to_client_ok:
  assumes "net_inv net"
  shows "net_inv (send_to_client C net n m) \<and>
         client_channel (send_to_client C net n m) =
           (client_channel net)(n := Option.bind (client_channel net n) (\<lambda>c. client_chan C c m)) \<and>
         peer_connections (send_to_client C net n m) = peer_connections net"
proof (cases "map_of (client_connections net) n")
  case None
  with assms show ?thesis by (simp add: send_to_client_def client_channel_def fun_eq_iff)
next
  case (Some c)
  then have "conn_id c = n" using assms by (auto simp: net_inv_def dest: map_of_SomeD)
  show ?thesis
  proof (cases "client_chan C (conn_out c) m")
    case None
    have "net_inv (net\<lparr>client_connections := AList.delete n (client_connections net)\<rparr>)"
      using assms by (auto simp: net_inv_def distinct_delete dest!: set_delete)
    with None Some show ?thesis
      by (simp add: send_to_client_def client_channel_def fun_eq_iff delete_conv')
  next
    case out: (Some out)
    with Some assms \<open>conn_id c = n\<close> show ?thesis
      by (simp add: send_to_client_def client_channel_def fun_eq_iff update_conv' update_client_inv)
  qed
qed

interpretation clients: connection_table
  "\<lambda>net i m. Inr (send_to_client C net i m)" client_channel "client_chan C" net_inv
  for C :: "('p, 'c, 'm) channels"
  by unfold_locales (use send_to_client_ok in blast)

section \<open>Start-up, handshakes and readers\<close>

text \<open>As long as only known peers register, start-up does not panic, and ends once all are there.\<close>

definition known_connection :: "('p, 'c) server_network \<Rightarrow> ('p, 'c) new_connection \<Rightarrow> bool" where
  "known_connection net nc = (case nc of ToPeer c \<Rightarrow> conn_id c \<in> set (net_peers net) | ToClient _ \<Rightarrow> True)"

lemma connect_ok:
  assumes "net_inv net" "known_connection net nc"
  shows "\<exists>net'. connect net nc = Inr net' \<and> net_inv net' \<and> net_peers net' = net_peers net"
proof (cases nc)
  case (ToPeer c)
  with assms(2) obtain i where i: "cluster_id_to_idx net (conn_id c) = Some i"
    using position_None_iff [of "(=) (conn_id c)" "net_peers net"]
    by (cases "cluster_id_to_idx net (conn_id c)") (auto simp: known_connection_def cluster_id_to_idx_def)
  have "connect net nc = Inr (net\<lparr>peer_connections := (peer_connections net)[i := Some c]\<rparr>)"
    using i idx_bound [OF assms(1) i] by (simp add: connect_def ToPeer)
  moreover have "net_inv (net\<lparr>peer_connections := (peer_connections net)[i := Some c]\<rparr>)"
    using assms(1) i by (rule update_slot_inv) simp
  ultimately show ?thesis by auto
next
  case (ToClient c)
  with assms(1) show ?thesis by (simp add: connect_def update_client_inv)
qed

text \<open>A node that registers under an id that is not configured brings the start-up down.\<close>

lemma connect_panics_iff:
  assumes "net_inv net"
  shows "(\<exists>p. connect net nc = Inl p) \<longleftrightarrow> \<not> known_connection net nc"
proof (cases "known_connection net nc")
  case True
  with connect_ok [OF assms] show ?thesis by (metis Inl_Inr_False)
next
  case False
  then obtain c where "nc = ToPeer c" "cluster_id_to_idx net (conn_id c) = None"
    by (auto simp: known_connection_def cluster_id_to_idx_def position_None_iff split: new_connection.splits)
  with False show ?thesis by (simp add: connect_def)
qed

lemma initialize_connections_ok:
  assumes "net_inv net" "\<forall>c\<in>set cs. known_connection net c"
  shows "\<exists>b net'. initialize_connections n net cs = Inr (b, net') \<and> net_inv net' \<and>
           (b \<longrightarrow> all_connected n net')"
  using assms
proof (induction cs arbitrary: net)
  case Nil
  then show ?case by auto
next
  case (Cons c cs)
  obtain net1 where net1: "connect net c = Inr net1" "net_inv net1" "net_peers net1 = net_peers net"
    using connect_ok [OF Cons.prems(1), of c] Cons.prems(2) by auto
  from Cons.prems(2) net1(3) have "\<forall>c\<in>set cs. known_connection net1 c"
    by (auto simp: known_connection_def split: new_connection.splits)
  from Cons.IH [OF net1(2) this] net1 show ?case by auto
qed

text \<open>The loop goes on only while something is missing.\<close>

lemma initialize_connections_waiting:
  "initialize_connections n net cs = Inr (False, net') \<Longrightarrow>
     fold_res connect net cs = Inr net' \<and> (cs \<noteq> [] \<longrightarrow> \<not> all_connected n net')"
proof (induction cs arbitrary: net)
  case (Cons c cs)
  then obtain net1 where net1: "connect net c = Inr net1" "\<not> all_connected n net1"
    "initialize_connections n net1 cs = Inr (False, net')"
    by (auto simp: bind_res_eq_Inr split: if_splits)
  from Cons.IH [OF net1(3)] net1 show ?case by (cases cs) simp_all
qed simp

fun peer_ids :: "('p, 'c) new_connection list \<Rightarrow> op_node_id list" where
  "peer_ids [] = []"
| "peer_ids (ToPeer c # cs) = conn_id c # peer_ids cs"
| "peer_ids (ToClient c # cs) = peer_ids cs"

fun client_ids :: "('p, 'c) new_connection list \<Rightarrow> u64 list" where
  "client_ids [] = []"
| "client_ids (ToClient c # cs) = conn_id c # client_ids cs"
| "client_ids (ToPeer c # cs) = client_ids cs"

text \<open>Who is connected after a series of connections.\<close>

lemma connect_one_connected:
  assumes "connect net c = Inr net1"
  shows "net_peers net1 = net_peers net"
    and "p \<in> set (peer_ids [c]) \<or> peer_channel net p \<noteq> None \<Longrightarrow> peer_channel net1 p \<noteq> None"
    and "fst ` set (client_connections net1) = fst ` set (client_connections net) \<union> set (client_ids [c])"
proof -
  have "net_peers net1 = net_peers net \<and>
      (p \<in> set (peer_ids [c]) \<or> peer_channel net p \<noteq> None \<longrightarrow> peer_channel net1 p \<noteq> None) \<and>
      fst ` set (client_connections net1) = fst ` set (client_connections net) \<union> set (client_ids [c])"
  proof (cases c)
    case (ToPeer d)
    with assms obtain i where i: "cluster_id_to_idx net (conn_id d) = Some i"
      "i < length (peer_connections net)" "net1 = net\<lparr>peer_connections := (peer_connections net)[i := Some d]\<rparr>"
      by (auto simp: connect_def bind_res_eq_Inr split: if_splits)
    have same: "cluster_id_to_idx net1 = cluster_id_to_idx net"
      unfolding i(3) by (rule ext) (simp add: cluster_id_to_idx_def)
    have "peer_channel net1 p \<noteq> None" if "p = conn_id d \<or> peer_channel net p \<noteq> None"
      using that i same by (cases "cluster_id_to_idx net p") (auto simp: peer_channel_def nth_list_update)
    with i(3) ToPeer show ?thesis by simp
  next
    case (ToClient d)
    then have net1: "net1 = net\<lparr>client_connections := AList.update (conn_id d) d (client_connections net)\<rparr>"
      using assms by (simp add: connect_def)
    have "peer_channel net1 p = peer_channel net p"
      unfolding net1 by (simp add: peer_channel_def cluster_id_to_idx_def split: option.split)
    moreover have "fst ` set (client_connections net1) = insert (conn_id d) (fst ` set (client_connections net))"
      unfolding net1 by (simp add: dom_update)
    ultimately show ?thesis by (simp add: ToClient net1)
  qed
  then show "net_peers net1 = net_peers net"
    "p \<in> set (peer_ids [c]) \<or> peer_channel net p \<noteq> None \<Longrightarrow> peer_channel net1 p \<noteq> None"
    "fst ` set (client_connections net1) = fst ` set (client_connections net) \<union> set (client_ids [c])"
    by blast+
qed

lemma connect_all_connected:
  assumes "fold_res connect net cs = Inr net'"
  shows "net_peers net' = net_peers net \<and>
         (\<forall>p. p \<in> set (peer_ids cs) \<or> peer_channel net p \<noteq> None \<longrightarrow> peer_channel net' p \<noteq> None) \<and>
         fst ` set (client_connections net') = fst ` set (client_connections net) \<union> set (client_ids cs)"
  using assms
proof (induction cs arbitrary: net)
  case (Cons c cs)
  then obtain net1 where net1: "connect net c = Inr net1" "fold_res connect net1 cs = Inr net'"
    by (auto split: sum.splits)
  have ids: "set (peer_ids (c # cs)) = set (peer_ids [c]) \<union> set (peer_ids cs)"
    "set (client_ids (c # cs)) = set (client_ids [c]) \<union> set (client_ids cs)"
    by (cases c; simp)+
  have "peer_channel net' p \<noteq> None" if "p \<in> set (peer_ids (c # cs)) \<or> peer_channel net p \<noteq> None" for p
    using that Cons.IH [OF net1(2)] connect_one_connected(2) [OF net1(1), of p] unfolding ids by blast
  with Cons.IH [OF net1(2)] connect_one_connected(1,3) [OF net1(1)] show ?case unfolding ids by auto
qed simp

lemma all_connected_iff:
  assumes "net_inv net" "distinct (net_peers net)"
  shows "all_connected n net \<longleftrightarrow>
     n \<le> card (fst ` set (client_connections net)) \<and> (\<forall>p\<in>set (net_peers net). peer_channel net p \<noteq> None)"
proof -
  have len: "length (peer_connections net) = length (net_peers net)" using assms(1) by (simp add: net_inv_def)
  have "cluster_id_to_idx net (net_peers net ! i) = Some i" if "i < length (net_peers net)" for i
    using position_nth_distinct [OF assms(2) that] by (simp add: cluster_id_to_idx_def)
  with len have "list_all (\<lambda>c. c \<noteq> None) (peer_connections net) \<longleftrightarrow>
      (\<forall>p\<in>set (net_peers net). peer_channel net p \<noteq> None)"
    by (auto simp: list_all_length all_set_conv_all_nth peer_channel_def)
  moreover have "card (fst ` set (client_connections net)) = length (client_connections net)"
    using assms(1) distinct_card [of "map fst (client_connections net)"] by (simp add: net_inv_def)
  ultimately show ?thesis by (simp add: all_connected_def)
qed

lemma listener_client_ids:
  "\<exists>n\<le>length rs. client_ids (connection_listener peer_of client_of rs net) =
     map (\<lambda>i. max_client_id net + of_nat (Suc i)) [0..<n]"
proof (induction rs arbitrary: net)
  case Nil
  then show ?case by simp
next
  case (Cons r rs)
  show ?case
  proof (cases "\<exists>s. r = Inr (s, Some (Inr ClientRegister))")
    case True
    let ?net = "net\<lparr>max_client_id := max_client_id net + 1\<rparr>"
    obtain n where "n \<le> length rs" "client_ids (connection_listener peer_of client_of rs ?net) =
        map (\<lambda>i. max_client_id ?net + of_nat (Suc i)) [0..<n]"
      using Cons.IH [of ?net] by blast
    moreover have "map (\<lambda>i. max_client_id net + of_nat (Suc i)) [0..<Suc n] =
        (max_client_id net + 1) # map (\<lambda>i. max_client_id ?net + of_nat (Suc i)) [0..<n]"
      by (simp only: map_upt_Suc) (simp add: add_ac)
    ultimately show ?thesis using True
      by (intro exI [of _ "Suc n"])
        (auto simp: handle_incoming_connection_def Let_def simp del: upt_Suc of_nat_Suc)
  next
    case False
    obtain n where "n \<le> length rs" "client_ids (connection_listener peer_of client_of rs net) =
        map (\<lambda>i. max_client_id net + of_nat (Suc i)) [0..<n]"
      using Cons.IH [of net] by blast
    with False show ?thesis
      by (intro exI [of _ n], cases r)
        (auto simp: handle_incoming_connection_def split: option.split sum.split registration_message.split)
  qed
qed

section \<open>Readers and writers\<close>

text \<open>The messages of a chunk that decode.\<close>

fun decoded :: "('e + 'm) list \<Rightarrow> 'm list" where
  "decoded [] = []"
| "decoded (Inr m # ms) = m # decoded ms"
| "decoded (Inl e # ms) = decoded ms"

lemma decoded_append: "decoded (xs @ ys) = decoded xs @ decoded ys"
  by (induction xs rule: decoded.induct) simp_all

lemma decoded_Inr [simp]: "decoded (map Inr ms) = ms"
  by (induction ms) simp_all

lemma reader_chunk_delivers:
  "case feed deliver (Some q) (map (Pair i) (decoded ms)) of
     Some q' \<Rightarrow> peer_reader_chunk deliver i q ms = q' \<and> client_reader_chunk deliver i q ms = Inr q'
   | None \<Rightarrow> \<exists>p. client_reader_chunk deliver i q ms = Inl p"
proof (induction ms arbitrary: q rule: decoded.induct)
  case (2 m ms)
  show ?case
  proof (cases "deliver q (i, m)")
    case (Some q1)
    with 2 [of q1] show ?thesis
      by (cases "feed deliver (Some q1) (map (Pair i) (decoded ms))") auto
  qed simp
next
  case (3 e ms)
  from 3 [of q] show ?case by (cases "feed deliver (Some q) (map (Pair i) (decoded ms))") auto
qed simp

lemma writer_loop_flushed:
  "client_writer put Some w bs = feed_batch put w (concat bs)"
  "fst (feed_batch put w (concat bs)) \<Longrightarrow> peer_writer put Some w bs = feed_batch put w (concat bs)"
proof -
  have app: "feed_batch put w (xs @ ys) =
      (let (fed, w') = feed_batch put w xs in if fed then feed_batch put w' ys else (False, w'))" for w xs ys
    by (induction xs arbitrary: w) (auto split: option.split)
  have never: "\<not> fst (feed_batch put w xs) \<Longrightarrow> \<not> fst (feed_batch put w (xs @ ys))" for w xs ys
    by (simp add: app case_prod_beta Let_def)
  show "client_writer put Some w bs = feed_batch put w (concat bs)"
  proof (induction bs arbitrary: w)
    case (Cons b bs)
    then show ?case
      by (simp add: client_writer_def client_writer_batch_def app case_prod_beta Let_def prod_eq_iff)
  qed (simp add: client_writer_def)
  show "fst (feed_batch put w (concat bs)) \<Longrightarrow> peer_writer put Some w bs = feed_batch put w (concat bs)"
  proof (induction bs arbitrary: w)
    case (Cons b bs)
    then have "fst (feed_batch put w b)" using never by fastforce
    with Cons show ?case
      by (simp add: peer_writer_def peer_writer_batch_def app case_prod_beta Let_def)
  qed (simp add: peer_writer_def)
qed

section \<open>Properties\<close>

text \<open>
  C32. Readers hand over what arrives: however the stream is cut into chunks, a server's queue takes
  exactly the messages that decode, each with the number of its sender, in order; a message that the
  queue refuses brings the client's reader down.
\<close>

theorem readers_deliver:
  "case feed deliver (Some q) (map (Pair i) (decoded (concat chunks))) of
     Some q' \<Rightarrow> peer_reader deliver i q chunks = q' \<and> client_reader deliver i q chunks = Inr q'
   | None \<Rightarrow> \<exists>p. client_reader deliver i q chunks = Inl p"
proof (induction chunks arbitrary: q)
  case Nil
  then show ?case by (simp add: peer_reader_def client_reader_def)
next
  case (Cons ms chunks)
  show ?case
  proof (cases "feed deliver (Some q) (map (Pair i) (decoded ms))")
    case None
    with reader_chunk_delivers [of deliver i q ms] show ?thesis
      by (auto simp: decoded_append feed_append client_reader_def)
  next
    case (Some q1)
    with reader_chunk_delivers [of deliver i q ms] Cons [of q1] show ?thesis
      by (cases "feed deliver (Some q1) (map (Pair i) (decoded (concat chunks)))")
        (auto simp: decoded_append feed_append peer_reader_def client_reader_def)
  qed
qed

text \<open>
  Writers keep order whatever the batching: over a sink that flushes, the client's writer writes
  exactly the queued messages up to the first that the sink refuses and then ends, and so does the
  peer's writer as long as none is refused.
\<close>

lemma writers_transmit:
  "client_writer put Some w bs = feed_batch put w (concat bs) \<and>
   (fst (feed_batch put w (concat bs)) \<longrightarrow> peer_writer put Some w bs = feed_batch put w (concat bs))"
  by (intro conjI impI writer_loop_flushed)

text \<open>
  A peer's writer that could not write one message drops the rest of the batch and goes on with the
  next batch when the flush succeeds, so the peer sees a gap in the middle of the stream.
\<close>

lemma peer_writer_gap:
  "peer_writer (\<lambda>w m. if m = 2 then None else Some (w @ [m])) Some [] [[1, 2, 3], [4 :: nat]] = (True, [1, 4])"
  by (simp add: peer_writer_def peer_writer_batch_def)

text \<open>
  Between two nodes exactly one opens the connection: of two different nodes that list each other
  as peers, one connects to the other, and never both do.
\<close>

lemma one_side_connects:
  assumes "a \<noteq> b" "(b, addr_b) \<in> set peers_a" "(a, addr_a) \<in> set peers_b"
  shows "((b, addr_b) \<in> set (peers_to_connect_to a peers_a)) \<noteq>
         ((a, addr_a) \<in> set (peers_to_connect_to b peers_b))"
  using assms by (auto simp: peers_to_connect_to_def)

text \<open>
  C33. Clients are told apart: in any sequence of incoming connections (of nodes, of clients, broken ones), fewer
  than the \<open>2 ^ 64\<close> numbers there are, no two clients get the same number, and a node that starts
  afresh numbers its clients 1, 2, 3 and so on.
\<close>

theorem client_ids_distinct:
  assumes "length rs < 2 ^ 64"
  shows "distinct (client_ids (connection_listener peer_of client_of rs net)) \<and>
         (\<exists>n. client_ids (connection_listener peer_of client_of rs (network_empty peers batch)) =
                map (\<lambda>i. of_nat (Suc i)) [0..<n])"
proof
  obtain n where n: "n \<le> length rs" "client_ids (connection_listener peer_of client_of rs net) =
      map (\<lambda>i. max_client_id net + of_nat (Suc i)) [0..<n]"
    using listener_client_ids [of rs peer_of client_of net] by blast
  have "inj_on (\<lambda>i. max_client_id net + of_nat (Suc i)) {0..<n}"
  proof (rule inj_onI)
    fix i j
    assume ij: "i \<in> {0..<n}" "j \<in> {0..<n}"
      and eq: "max_client_id net + of_nat (Suc i) = max_client_id net + of_nat (Suc j)"
    from ij n(1) assms have "Suc i < 2 ^ LENGTH(64)" "Suc j < 2 ^ LENGTH(64)" by simp_all
    moreover from eq have "unat (of_nat (Suc i) :: u64) = unat (of_nat (Suc j) :: u64)" by simp
    ultimately show "i = j" by (simp only: unat_of_nat mod_less nat.inject)
  qed
  then show "distinct (client_ids (connection_listener peer_of client_of rs net))"
    by (simp add: n(2) distinct_map del: of_nat_Suc)
  show "\<exists>n. client_ids (connection_listener peer_of client_of rs (network_empty peers batch)) =
          map (\<lambda>i. of_nat (Suc i)) [0..<n]"
    using listener_client_ids [of rs peer_of client_of "network_empty peers batch"]
    by (auto simp: network_empty_def)
qed

theorem client_ids_distinct_witness:
  "distinct (client_ids (connection_listener id id
     [Inr (0::nat, Some (Inr ClientRegister)), Inl (), Inr (1, Some (Inl ())),
      Inr (2, Some (Inr (NodeRegister 7))), Inr (3, Some (Inr ClientRegister))] (network_empty [(7::u64, ())] 100)))"
  by (rule client_ids_distinct [THEN conjunct1]) simp

text \<open>
  C31. Start-up ends, and means what it says: as long as only configured peers register, connecting
  never panics, every slot holds the connection of its own peer, and when the wait ends every peer
  and as many clients as were asked for are connected; it does end once each peer and that many
  different clients have come, in whatever order.
\<close>

theorem startup_connects_all:
  assumes "distinct (map fst peers)" "\<forall>c\<in>set cs. known_connection (network_empty peers batch) c"
  shows "\<exists>b net. initialize_connections n (network_empty peers batch) cs = Inr (b, net) \<and>
           net_inv net \<and> (b \<longrightarrow> all_connected n net) \<and>
           (cs \<noteq> [] \<and> set (map fst peers) \<subseteq> set (peer_ids cs) \<and> n \<le> card (set (client_ids cs)) \<longrightarrow> b)"
proof -
  let ?net = "network_empty peers batch"
  obtain b net where run: "initialize_connections n ?net cs = Inr (b, net)" "net_inv net"
    "b \<longrightarrow> all_connected n net"
    using initialize_connections_ok [OF network_empty_inv assms(2)] by blast
  have "b" if all: "cs \<noteq> []" "set (map fst peers) \<subseteq> set (peer_ids cs)" "n \<le> card (set (client_ids cs))"
  proof (rule ccontr)
    assume "\<not> b"
    with run(1) have wait: "fold_res connect ?net cs = Inr net" "\<not> all_connected n net"
      using initialize_connections_waiting [of n ?net cs net] all(1) by auto
    from connect_all_connected [OF wait(1)] have "net_peers net = map fst peers"
      "\<forall>p\<in>set (peer_ids cs). peer_channel net p \<noteq> None"
      "fst ` set (client_connections net) = set (client_ids cs)"
      by (simp_all add: network_empty_def)
    with all_connected_iff [OF run(2), of n] assms(1) all(2,3) wait(2) show False
      by (metis subsetD)
  qed
  with run show ?thesis by blast
qed

theorem startup_connects_all_witness:
  "\<exists>net. initialize_connections 1 (network_empty [(7, ())] 100)
       [ToClient \<lparr>conn_id = 1, conn_out = ''c''\<rparr>, ToPeer \<lparr>conn_id = 7, conn_out = ''p''\<rparr>] = Inr (True, net) \<and>
     all_connected 1 net"
proof -
  let ?cs = "[ToClient \<lparr>conn_id = 1, conn_out = ''c''\<rparr>, ToPeer \<lparr>conn_id = 7, conn_out = ''p''\<rparr>]"
  have "\<forall>c\<in>set ?cs. known_connection (network_empty [(7, ())] 100) c"
    by (simp add: known_connection_def network_empty_def)
  from startup_connects_all [OF _ this, of 1] show ?thesis by auto
qed

text \<open>
  C27. Messages to the cluster never panic and keep their order per peer: each peer's channel takes
  exactly the messages addressed to that peer, in order, until it refuses one; from then on the peer
  is disconnected and stays so, and no other peer is affected.
\<close>

theorem cluster_sends_in_order:
  assumes "net_inv net"
  shows "\<exists>net'. fold_res (\<lambda>net (i, m). send_to_cluster C net i m) net ims = Inr net' \<and> net_inv net' \<and>
           (\<forall>j. peer_channel net' j =
              feed (peer_chan C) (peer_channel net j) (map snd (filter (\<lambda>(i, m). i = j) ims)))"
  using peers.send_all [OF assms, of C ims] .

definition queue_channels ::
    "('m cluster_message queue_channel, server_message queue_channel, 'm) channels" where
  "queue_channels = \<lparr>peer_chan = queue_send, client_chan = queue_send\<rparr>"

definition two_peers ::
    "(nat cluster_message queue_channel, server_message queue_channel) server_network" where
  "two_peers =
     \<lparr>net_peers = [2, 3],
      peer_connections = [Some \<lparr>conn_id = 2, conn_out = \<lparr>qc_open = True, qc_sent = []\<rparr>\<rparr>,
        Some \<lparr>conn_id = 3, conn_out = \<lparr>qc_open = False, qc_sent = []\<rparr>\<rparr>],
      client_connections = [], max_client_id = 0, batch_size = 100\<rparr>"

theorem cluster_sends_in_order_witness:
  "\<exists>net'. fold_res (\<lambda>net (i, m). send_to_cluster queue_channels net i m) two_peers
            [(2, LeaderStartSignal 1), (3, LeaderStartSignal 1), (2, LeaderStartSignal 2)] = Inr net' \<and>
     peer_channel net' 3 = None \<and>
     peer_channel net' 2 = Some \<lparr>qc_open = True, qc_sent = [LeaderStartSignal 1, LeaderStartSignal 2]\<rparr>"
proof -
  have "net_inv two_peers"
    by (auto simp: net_inv_def two_peers_def less_Suc_eq)
  from cluster_sends_in_order [OF this, of queue_channels
      "[(2, LeaderStartSignal 1), (3, LeaderStartSignal 1), (2, LeaderStartSignal 2)]"]
  obtain net' where net': "fold_res (\<lambda>net (i, m). send_to_cluster queue_channels net i m) two_peers
      [(2, LeaderStartSignal 1), (3, LeaderStartSignal 1), (2, LeaderStartSignal 2)] = Inr net'"
    "\<forall>j. peer_channel net' j = feed (peer_chan queue_channels) (peer_channel two_peers j)
       (map snd (filter (\<lambda>(i, m). i = j)
         [(2, LeaderStartSignal 1), (3, LeaderStartSignal 1), (2, LeaderStartSignal 2)]))"
    by blast
  have "peer_channel two_peers 2 = Some \<lparr>qc_open = True, qc_sent = []\<rparr>"
    "peer_channel two_peers 3 = Some \<lparr>qc_open = False, qc_sent = []\<rparr>"
    by (simp_all add: peer_channel_def cluster_id_to_idx_def two_peers_def)
  with net'(2) have "peer_channel net' 3 = None"
    "peer_channel net' 2 = Some \<lparr>qc_open = True, qc_sent = [LeaderStartSignal 1, LeaderStartSignal 2]\<rparr>"
    by (simp_all add: queue_channels_def queue_send_def)
  with net'(1) show ?thesis by blast
qed

end
