(* ===== verification/Server.thy ===== *)
theory Server
  imports Server_Network Replica Files
begin

text \<open>
  The server (\<open>src/server/server.rs\<close>, \<open>src/server/main.rs\<close>): every handler of \<open>OmniPaxosServer\<close>, the
  loop that establishes the initial leader and the main loop. The server is a replica (locale
  \<open>replica\<close>) of the sequential database; its invariant says that the database is the execution of the
  decided entries it has applied.
\<close>

section \<open>State\<close>

record ('p, 'c, 'o, 's, 'm, 'q) server_env =
  se_paxos :: "('o, command, 's, 'm, 'q) omnipaxos_ops"
  se_chan :: "('p, 'c, 'm) channels"

record ('p, 'c, 'o, 'm, 'q) omnipaxos_server =
  sv_id :: op_node_id
  sv_database :: database
  sv_network :: "('p, 'c) server_network"
  sv_omnipaxos :: 'o
  current_decided_idx :: nat
  omnipaxos_msg_buffer :: "'m list"
  sv_config :: "'q kv_config"
  sv_peers :: "op_node_id list"

section \<open>Handlers\<close>

text \<open>The network is established by \<open>Network::new\<close> (theory \<open>Server_Network\<close>).\<close>

definition server_new ::
    "('p, 'c, 'o, 's, 'm, 'q) server_env \<Rightarrow> 'q kv_config \<Rightarrow> ('p, 'c) server_network
       \<Rightarrow> ('p, 'c, 'o, 'm, 'q) omnipaxos_server res" where
  "server_new E cfg net =
     bind_res (unwrap (op_build (se_paxos E) (config_into cfg)))
       (\<lambda>paxos. Inr
          \<lparr>sv_id = server_id (cfg_local cfg), sv_database = database_new, sv_network = net,
           sv_omnipaxos = paxos, current_decided_idx = 0, omnipaxos_msg_buffer = [],
           sv_config = cfg, sv_peers = get_peers cfg (server_id (cfg_local cfg))\<rparr>)"

definition apply_command ::
    "('p, 'c, 'o, 's, 'm, 'q) server_env \<Rightarrow> ('p, 'c, 'o, 'm, 'q) omnipaxos_server \<Rightarrow> command
       \<Rightarrow> ('p, 'c, 'o, 'm, 'q) omnipaxos_server" where
  "apply_command E s cmd =
     (let (read, d) = handle_command (sv_database s) (kv_cmd cmd); s = s\<lparr>sv_database := d\<rparr>
      in if cmd_coordinator_id cmd = sv_id s
         then (let response = (case read of
                                 Some read_result \<Rightarrow> ReadResp (cmd_id cmd) read_result
                               | None \<Rightarrow> WriteResp (cmd_id cmd))
               in s\<lparr>sv_network := send_to_client (se_chan E) (sv_network s) (cmd_client_id cmd) response\<rparr>)
         else s)"

definition update_database_and_respond ::
    "('p, 'c, 'o, 's, 'm, 'q) server_env \<Rightarrow> ('p, 'c, 'o, 'm, 'q) omnipaxos_server \<Rightarrow> command list
       \<Rightarrow> ('p, 'c, 'o, 'm, 'q) omnipaxos_server" where
  "update_database_and_respond E s commands = foldl (apply_command E) s commands"

fun decided_command :: "(command, 's) log_entry \<Rightarrow> command res" where
  "decided_command (LDecided cmd) = Inr cmd"
| "decided_command (LSnapshotted _) = Inl (Panic ''entered unreachable code'')"
| "decided_command LOther = Inl (Panic ''entered unreachable code'')"

definition handle_decided_entries ::
    "('p, 'c, 'o, 's, 'm, 'q) server_env \<Rightarrow> ('p, 'c, 'o, 'm, 'q) omnipaxos_server
       \<Rightarrow> ('p, 'c, 'o, 'm, 'q) omnipaxos_server res" where
  "handle_decided_entries E s =
     (let new_decided_idx = op_get_decided_idx (se_paxos E) (sv_omnipaxos s)
      in if current_decided_idx s < new_decided_idx
         then bind_res (unwrap (op_read_decided_suffix (se_paxos E) (current_decided_idx s) (sv_omnipaxos s)))
                (\<lambda>decided_entries.
              bind_res (map_res decided_command decided_entries)
                (\<lambda>decided_commands.
                   Inr (update_database_and_respond E (s\<lparr>current_decided_idx := new_decided_idx\<rparr>)
                          decided_commands)))
         else Inr s)"

definition to_cluster ::
    "('p, 'c, 'o, 's, 'm, 'q) server_env \<Rightarrow> ('p, 'c, 'o, 'm, 'q) omnipaxos_server
       \<Rightarrow> op_node_id \<times> 'm cluster_message \<Rightarrow> ('p, 'c, 'o, 'm, 'q) omnipaxos_server res" where
  "to_cluster E s tm =
     bind_res (send_to_cluster (se_chan E) (sv_network s) (fst tm) (snd tm))
       (\<lambda>net. Inr (s\<lparr>sv_network := net\<rparr>))"

definition send_outgoing_msgs ::
    "('p, 'c, 'o, 's, 'm, 'q) server_env \<Rightarrow> ('p, 'c, 'o, 'm, 'q) omnipaxos_server
       \<Rightarrow> ('p, 'c, 'o, 'm, 'q) omnipaxos_server res" where
  "send_outgoing_msgs E s =
     (let (msgs, o') = op_take_outgoing_messages (se_paxos E) (sv_omnipaxos s);
          buffer = omnipaxos_msg_buffer s @ msgs
      in fold_res (to_cluster E) (s\<lparr>sv_omnipaxos := o', omnipaxos_msg_buffer := []\<rparr>)
           (map (\<lambda>msg. (op_get_receiver (se_paxos E) msg, OmniPaxosMessage msg)) buffer))"

definition append_to_log ::
    "('p, 'c, 'o, 's, 'm, 'q) server_env \<Rightarrow> ('p, 'c, 'o, 'm, 'q) omnipaxos_server \<Rightarrow> u64 \<Rightarrow> nat
       \<Rightarrow> kv_command \<Rightarrow> ('p, 'c, 'o, 'm, 'q) omnipaxos_server res" where
  "append_to_log E s client cid c =
     (let (ok, o') = op_append (se_paxos E)
            \<lparr>cmd_client_id = client, cmd_coordinator_id = sv_id s, cmd_id = cid,
             kv_cmd = c\<rparr> (sv_omnipaxos s)
      in if ok then Inr (s\<lparr>sv_omnipaxos := o'\<rparr>) else Inl (Panic ''Append to Omnipaxos log failed''))"

definition handle_client_messages ::
    "('p, 'c, 'o, 's, 'm, 'q) server_env \<Rightarrow> ('p, 'c, 'o, 'm, 'q) omnipaxos_server
       \<Rightarrow> (u64 \<times> client_message) list \<Rightarrow> ('p, 'c, 'o, 'm, 'q) omnipaxos_server res" where
  "handle_client_messages E s messages =
     bind_res (fold_res (\<lambda>s (client, msg). case msg of Append i c \<Rightarrow> append_to_log E s client i c) s messages)
       (send_outgoing_msgs E)"

definition send_client_start_signals ::
    "('p, 'c, 'o, 's, 'm, 'q) server_env \<Rightarrow> ('p, 'c, 'o, 'm, 'q) omnipaxos_server \<Rightarrow> timestamp
       \<Rightarrow> ('p, 'c, 'o, 'm, 'q) omnipaxos_server" where
  "send_client_start_signals E s t =
     foldl (\<lambda>s i. s\<lparr>sv_network := send_to_client (se_chan E) (sv_network s) (of_nat i) (StartSignal t)\<rparr>) s
       [1..<unat (of_nat (num_clients (cfg_local (sv_config s))) + 1 :: u64)]"

definition send_cluster_start_signals ::
    "('p, 'c, 'o, 's, 'm, 'q) server_env \<Rightarrow> ('p, 'c, 'o, 'm, 'q) omnipaxos_server \<Rightarrow> timestamp
       \<Rightarrow> ('p, 'c, 'o, 'm, 'q) omnipaxos_server res" where
  "send_cluster_start_signals E s t =
     fold_res (to_cluster E) s (map (\<lambda>peer. (peer, LeaderStartSignal t)) (sv_peers s))"

definition handle_cluster_message ::
    "('p, 'c, 'o, 's, 'm, 'q) server_env \<Rightarrow> bool \<times> ('p, 'c, 'o, 'm, 'q) omnipaxos_server
       \<Rightarrow> op_node_id \<times> 'm cluster_message \<Rightarrow> (bool \<times> ('p, 'c, 'o, 'm, 'q) omnipaxos_server) res" where
  "handle_cluster_message E st fm =
     (let (received_start_signal, s) = st
      in case snd fm of
           OmniPaxosMessage m \<Rightarrow>
             bind_res (handle_decided_entries E
                         (s\<lparr>sv_omnipaxos := op_handle_incoming (se_paxos E) m (sv_omnipaxos s)\<rparr>))
               (\<lambda>s'. Inr (received_start_signal, s'))
         | LeaderStartSignal start_time \<Rightarrow> Inr (True, send_client_start_signals E s start_time))"

definition handle_cluster_messages ::
    "('p, 'c, 'o, 's, 'm, 'q) server_env \<Rightarrow> ('p, 'c, 'o, 'm, 'q) omnipaxos_server
       \<Rightarrow> (op_node_id \<times> 'm cluster_message) list \<Rightarrow> (bool \<times> ('p, 'c, 'o, 'm, 'q) omnipaxos_server) res" where
  "handle_cluster_messages E s messages =
     bind_res (fold_res (handle_cluster_message E) (False, s) messages)
       (\<lambda>(received, s). bind_res (send_outgoing_msgs E s) (\<lambda>s'. Inr (received, s')))"

section \<open>The loops\<close>

text \<open>
  The branches of the two \<open>select!\<close> loops. \<open>LeaderTick\<close> carries the time in milliseconds; it is a
  branch of the first loop only, \<open>ElectionTick\<close> of the second.
\<close>

datatype 'm server_event =
    LeaderTick timestamp
  | ElectionTick
  | ClusterBatch "(op_node_id \<times> 'm cluster_message) list"
  | ClientBatch "(u64 \<times> client_message) list"

definition leader_tick ::
    "('p, 'c, 'o, 's, 'm, 'q) server_env \<Rightarrow> ('p, 'c, 'o, 'm, 'q) omnipaxos_server \<Rightarrow> timestamp
       \<Rightarrow> (bool \<times> ('p, 'c, 'o, 'm, 'q) omnipaxos_server) res" where
  "leader_tick E s now_ms =
     (let established = (case op_get_current_leader (se_paxos E) (sv_omnipaxos s) of
                           Some (curr_leader, is_accept_phase) \<Rightarrow> curr_leader = sv_id s \<and> is_accept_phase
                         | None \<Rightarrow> False)
      in if established
         then (let experiment_sync_start = now_ms + 2000
               in bind_res (send_cluster_start_signals E s experiment_sync_start)
                    (\<lambda>s. Inr (True, send_client_start_signals E s experiment_sync_start)))
         else bind_res (send_outgoing_msgs E
                          (s\<lparr>sv_omnipaxos := op_try_become_leader (se_paxos E) (sv_omnipaxos s)\<rparr>))
                (\<lambda>s. Inr (False, s)))"

fun establish_step ::
    "('p, 'c, 'o, 's, 'm, 'q) server_env \<Rightarrow> ('p, 'c, 'o, 'm, 'q) omnipaxos_server \<Rightarrow> 'm server_event
       \<Rightarrow> (bool \<times> ('p, 'c, 'o, 'm, 'q) omnipaxos_server) res" where
  "establish_step E s (LeaderTick t) =
     (if initial_leader (cfg_cluster (sv_config s)) = sv_id s then leader_tick E s t else Inr (False, s))"
| "establish_step E s (ClusterBatch ms) = handle_cluster_messages E s ms"
| "establish_step E s (ClientBatch ms) =
     bind_res (handle_client_messages E s ms) (\<lambda>s'. Inr (False, s'))"
| "establish_step E s ElectionTick = Inr (False, s)"

fun establish_initial_leader ::
    "('p, 'c, 'o, 's, 'm, 'q) server_env \<Rightarrow> ('p, 'c, 'o, 'm, 'q) omnipaxos_server \<Rightarrow> 'm server_event list
       \<Rightarrow> (bool \<times> ('p, 'c, 'o, 'm, 'q) omnipaxos_server) res" where
  "establish_initial_leader E s [] = Inr (False, s)"
| "establish_initial_leader E s (ev # evs) =
     bind_res (establish_step E s ev)
       (\<lambda>(done, s'). if done then Inr (True, s') else establish_initial_leader E s' evs)"

fun server_step ::
    "('p, 'c, 'o, 's, 'm, 'q) server_env \<Rightarrow> ('p, 'c, 'o, 'm, 'q) omnipaxos_server \<Rightarrow> 'm server_event
       \<Rightarrow> ('p, 'c, 'o, 'm, 'q) omnipaxos_server res" where
  "server_step E s ElectionTick =
     send_outgoing_msgs E (s\<lparr>sv_omnipaxos := op_tick (se_paxos E) (sv_omnipaxos s)\<rparr>)"
| "server_step E s (ClusterBatch ms) =
     bind_res (handle_cluster_messages E s ms) (\<lambda>(_, s'). Inr s')"
| "server_step E s (ClientBatch ms) = handle_client_messages E s ms"
| "server_step E s (LeaderTick _) = Inr s"

text \<open>\<open>run\<close>: \<open>saved\<close> is the outcome of \<open>save_output\<close>, which comes first.\<close>

definition save_output ::
    "'f file_ops \<Rightarrow> ('q kv_config \<Rightarrow> string option) \<Rightarrow> ('p, 'c, 'o, 'm, 'q) omnipaxos_server \<Rightarrow> 'f option" where
  "save_output F to_string_pretty s =
     write_json F to_string_pretty (output_filepath (cfg_local (sv_config s))) (sv_config s)"

definition server_run ::
    "('p, 'c, 'o, 's, 'm, 'q) server_env \<Rightarrow> 'f option \<Rightarrow> ('p, 'c, 'o, 'm, 'q) omnipaxos_server
       \<Rightarrow> 'm server_event list \<Rightarrow> 'm server_event list \<Rightarrow> ('p, 'c, 'o, 'm, 'q) omnipaxos_server res" where
  "server_run E saved s startup evs =
     bind_res (expect ''Failed to write to file'' saved)
       (\<lambda>_. bind_res (establish_initial_leader E s startup)
         (\<lambda>(done, s'). if done then fold_res (server_step E) s' evs else Inr s'))"

section \<open>Main\<close>

text \<open>
  \<open>OmniPaxosServer::new\<close> with the network it waits for: \<open>None\<close> while connections are missing. The
  consensus instance is built first.
\<close>

definition server_start ::
    "('p, 'c, 'o, 's, 'm, 'q) server_env \<Rightarrow> (string \<Rightarrow> 'a option) \<Rightarrow> (string \<Rightarrow> 'a list option)
       \<Rightarrow> 'q kv_config \<Rightarrow> ('p, 'c) new_connection list \<Rightarrow> ('p, 'c, 'o, 'm, 'q) omnipaxos_server option res" where
  "server_start E from_str to_socket_addrs cfg conns =
     bind_res (unwrap (op_build (se_paxos E) (config_into cfg)))
       (\<lambda>_. bind_res (network_new from_str to_socket_addrs cfg 100 conns)
         (\<lambda>(ready, net). if ready then bind_res (server_new E cfg net) (\<lambda>s. Inr (Some s)) else Inr None))"

definition server_main ::
    "('p, 'c, 'o, 's, 'm, 'q) server_env \<Rightarrow> 'f file_ops \<Rightarrow> ('q kv_config \<Rightarrow> string option)
       \<Rightarrow> (string \<Rightarrow> string option) \<Rightarrow> (string \<Rightarrow> string \<Rightarrow> string + 'q kv_config)
       \<Rightarrow> (string \<Rightarrow> 'a option) \<Rightarrow> (string \<Rightarrow> 'a list option) \<Rightarrow> ('p, 'c) new_connection list
       \<Rightarrow> 'm server_event list \<Rightarrow> 'm server_event list \<Rightarrow> ('p, 'c, 'o, 'm, 'q) omnipaxos_server option res" where
  "server_main E F to_string_pretty var load from_str to_socket_addrs conns startup evs =
     bind_res (config_new var load)
       (\<lambda>parsed. case parsed of
           Inl e \<Rightarrow> Inl (Panic e)
         | Inr cfg \<Rightarrow>
             bind_res (server_start E from_str to_socket_addrs cfg conns)
               (\<lambda>started. case started of
                   None \<Rightarrow> Inr None
                 | Some s \<Rightarrow>
                     bind_res (server_run E (save_output F to_string_pretty s) s startup evs)
                       (\<lambda>s'. Inr (Some s'))))"

section \<open>The server is a replica\<close>

lemma map_res_decided [simp]: "map_res decided_command (map LDecided cs) = Inr cs"
  by (induction cs) simp_all

text \<open>What one log entry does to the database, and which answers the server called \<open>self\<close> gives.\<close>

definition server_spec ::
    "op_node_id \<Rightarrow> database \<Rightarrow> command \<Rightarrow> database \<times> (u64 \<times> server_message) list" where
  "server_spec self d c =
     (let (read, d') = handle_command d (kv_cmd c)
      in (d', if cmd_coordinator_id c = self
              then [(cmd_client_id c,
                     case read of Some r \<Rightarrow> ReadResp (cmd_id c) r | None \<Rightarrow> WriteResp (cmd_id c))]
              else []))"

abbreviation respond_all ::
    "('p, 'c, 'm) channels \<Rightarrow> ('p, 'c) server_network \<Rightarrow> (u64 \<times> server_message) list
       \<Rightarrow> ('p, 'c) server_network" where
  "respond_all C net rs \<equiv> foldl (\<lambda>net (i, m). send_to_client C net i m) net rs"

lemma apply_command_spec:
  "apply_command E s c =
     s\<lparr>sv_database := fst (server_spec (sv_id s) (sv_database s) c),
       sv_network := respond_all (se_chan E) (sv_network s)
                       (snd (server_spec (sv_id s) (sv_database s) c))\<rparr>"
  by (simp add: apply_command_def server_spec_def case_prod_beta Let_def)

text \<open>The server together with the answers it has given so far.\<close>

definition traced_apply ::
    "('p, 'c, 'o, 's, 'm, 'q) server_env
       \<Rightarrow> ('p, 'c, 'o, 'm, 'q) omnipaxos_server \<times> (u64 \<times> server_message) list \<Rightarrow> command
       \<Rightarrow> ('p, 'c, 'o, 'm, 'q) omnipaxos_server \<times> (u64 \<times> server_message) list" where
  "traced_apply E st c =
     (apply_command E (fst st) c, snd st @ snd (server_spec (sv_id (fst st)) (sv_database (fst st)) c))"

interpretation sv: replica "traced_apply E" "\<lambda>st. sv_database (fst st)" snd "\<lambda>st. sv_id (fst st)" server_spec
  for E :: "('p, 'c, 'o, 's, 'm, 'q) server_env"
  by unfold_locales (simp_all add: traced_apply_def apply_command_spec)

lemma foldl_traced: "fst (foldl (traced_apply E) st cs) = foldl (apply_command E) (fst st) cs"
  by (induction cs arbitrary: st) (simp_all add: traced_apply_def)

text \<open>A batch of entries: the database and the answers are those of the sequential run.\<close>

lemma update_database_spec:
  "update_database_and_respond E s cs =
     s\<lparr>sv_database := fst (run_log (server_spec (sv_id s)) (sv_database s) cs),
       sv_network := respond_all (se_chan E) (sv_network s)
                       (snd (run_log (server_spec (sv_id s)) (sv_database s) cs))\<rparr>"
proof (induction cs arbitrary: s)
  case Nil
  then show ?case by (simp add: update_database_and_respond_def)
next
  case (Cons c cs)
  have "update_database_and_respond E s (c # cs) = update_database_and_respond E (apply_command E s c) cs"
    by (simp add: update_database_and_respond_def)
  also have "\<dots> = s\<lparr>sv_database := fst (run_log (server_spec (sv_id s)) (sv_database s) (c # cs)),
       sv_network := respond_all (se_chan E) (sv_network s)
                       (snd (run_log (server_spec (sv_id s)) (sv_database s) (c # cs)))\<rparr>"
    unfolding Cons.IH by (simp add: apply_command_spec run_log_Cons del: run_log.simps(2))
  finally show ?case .
qed

lemma run_log_exec: "fst (run_log (server_spec self) d cs) = exec d (kv_cmds cs)"
  by (induction cs arbitrary: d)
    (simp_all add: run_log_Cons server_spec_def case_prod_beta Let_def del: run_log.simps(2))

lemma respond_all_channels:
  assumes "net_inv net"
  shows "net_inv (respond_all C net rs) \<and>
         (\<forall>i. client_channel (respond_all C net rs) i =
            feed (client_chan C) (client_channel net i) (map snd (filter (\<lambda>(j, m). j = i) rs)))"
proof -
  have "fold_res (\<lambda>net (i, m). Inr (send_to_client C net i m)) net rs = Inr (respond_all C net rs)"
    by (rule fold_res_pure) (simp add: case_prod_beta)
  with clients.send_all [OF assms, of C rs] show ?thesis by simp
qed

lemma start_signals_net:
  "send_client_start_signals E s t =
     s\<lparr>sv_network := respond_all (se_chan E) (sv_network s)
         (map (\<lambda>i. (of_nat i, StartSignal t))
           [1..<unat (of_nat (num_clients (cfg_local (sv_config s))) + 1 :: u64)])\<rparr>"
proof -
  have "foldl (\<lambda>s i. s\<lparr>sv_network := send_to_client C (sv_network s) (of_nat i) m\<rparr>) s ks =
      s\<lparr>sv_network := respond_all C (sv_network s) (map (\<lambda>i. (of_nat i, m)) ks)\<rparr>" for C m ks
    by (induction ks arbitrary: s) simp_all
  then show ?thesis unfolding send_client_start_signals_def by blast
qed

section \<open>The invariant\<close>

definition server_inv ::
    "('o \<Rightarrow> command list) \<Rightarrow> ('p, 'c, 'o, 'm, 'q) omnipaxos_server \<Rightarrow> bool" where
  "server_inv decided s \<longleftrightarrow>
     current_decided_idx s \<le> length (decided (sv_omnipaxos s)) \<and>
     sv_database s = exec database_new (kv_cmds (take (current_decided_idx s) (decided (sv_omnipaxos s)))) \<and>
     net_inv (sv_network s) \<and> omnipaxos_msg_buffer s = []"

text \<open>A step that applies nothing: the decided log may have grown, messages may have been sent.\<close>

definition idle ::
    "('o \<Rightarrow> command list) \<Rightarrow> ('p, 'c, 'o, 'm, 'q) omnipaxos_server
       \<Rightarrow> ('p, 'c, 'o, 'm, 'q) omnipaxos_server \<Rightarrow> bool" where
  "idle decided s s' \<longleftrightarrow>
     sv_id s' = sv_id s \<and> sv_database s' = sv_database s \<and>
     current_decided_idx s' = current_decided_idx s \<and>
     prefix (decided (sv_omnipaxos s)) (decided (sv_omnipaxos s')) \<and>
     net_inv (sv_network s') \<and> omnipaxos_msg_buffer s' = []"

lemma server_inv_idle: "server_inv decided s \<Longrightarrow> idle decided s s' \<Longrightarrow> server_inv decided s'"
  using prefix_length_le [of "decided (sv_omnipaxos s)" "decided (sv_omnipaxos s')"]
  by (auto simp: server_inv_def idle_def dest: prefix_take_eq)

lemma idle_trans: "idle decided s s' \<Longrightarrow> idle decided s' s'' \<Longrightarrow> idle decided s s''"
  by (auto simp: idle_def intro: prefix_order.trans)

lemma idle_self: "server_inv decided s \<Longrightarrow> idle decided s s"
  by (simp add: idle_def server_inv_def)

text \<open>Sending to the cluster never panics and leaves everything but the peers' channels alone.\<close>

lemma to_cluster_all_ok:
  assumes "net_inv (sv_network s)"
  shows "\<exists>net. fold_res (to_cluster E) s tms = Inr (s\<lparr>sv_network := net\<rparr>) \<and> net_inv net \<and>
           client_connections net = client_connections (sv_network s)"
  using assms
proof (induction tms arbitrary: s)
  case Nil
  then show ?case by (intro exI [of _ "sv_network s"]) simp
next
  case (Cons tm tms)
  obtain net where net: "send_to_cluster (se_chan E) (sv_network s) (fst tm) (snd tm) = Inr net"
    "net_inv net" "client_connections net = client_connections (sv_network s)"
    using send_to_cluster_ok [OF Cons.prems] by blast
  with Cons.IH [of "s\<lparr>sv_network := net\<rparr>"] show ?case by (simp add: to_cluster_def)
qed

lemma to_cluster_all_fold:
  "fold_res (to_cluster E) s tms =
     bind_res (fold_res (\<lambda>net (i, m). send_to_cluster (se_chan E) net i m) (sv_network s) tms)
       (\<lambda>net. Inr (s\<lparr>sv_network := net\<rparr>))"
proof (induction tms arbitrary: s)
  case (Cons tm tms)
  then show ?case
    by (cases "send_to_cluster (se_chan E) (sv_network s) (fst tm) (snd tm)")
      (simp_all add: to_cluster_def case_prod_beta)
qed simp

lemma to_cluster_all_channels:
  assumes "net_inv (sv_network s)"
  shows "\<exists>net. fold_res (to_cluster E) s tms = Inr (s\<lparr>sv_network := net\<rparr>) \<and> net_inv net \<and>
           client_connections net = client_connections (sv_network s) \<and>
           (\<forall>p. peer_channel net p = feed (peer_chan (se_chan E)) (peer_channel (sv_network s) p)
              (map snd (filter (\<lambda>(i, m). i = p) tms)))"
proof -
  obtain net where net: "fold_res (to_cluster E) s tms = Inr (s\<lparr>sv_network := net\<rparr>)"
    "client_connections net = client_connections (sv_network s)"
    using to_cluster_all_ok [OF assms] by blast
  obtain net' where "fold_res (\<lambda>net (i, m). send_to_cluster (se_chan E) net i m) (sv_network s) tms = Inr net'"
    "net_inv net'" "\<forall>p. peer_channel net' p = feed (peer_chan (se_chan E)) (peer_channel (sv_network s) p)
              (map snd (filter (\<lambda>(i, m). i = p) tms))"
    using peers.send_all [OF assms] by blast
  moreover from this(1) net(1) have "s\<lparr>sv_network := net'\<rparr> = s\<lparr>sv_network := net\<rparr>"
    by (simp add: to_cluster_all_fold)
  then have "net' = net" by (metis omnipaxos_server.select_convs(3) omnipaxos_server.surjective
      omnipaxos_server.update_convs(3))
  ultimately show ?thesis using net by blast
qed

lemma respond_all_peers: "net_inv net \<Longrightarrow> peer_channel (respond_all C net rs) p = peer_channel net p"
proof (induction rs arbitrary: net)
  case (Cons r rs)
  obtain i m where r: "r = (i, m)" by fastforce
  have "net_peers (send_to_client C net i m) = net_peers net"
    by (simp add: send_to_client_def split: option.split)
  then have "peer_channel (send_to_client C net i m) p = peer_channel net p"
    using send_to_client_ok [OF Cons.prems, of C i m]
    by (simp add: peer_channel_def cluster_id_to_idx_def split: option.split)
  with Cons.IH [of "send_to_client C net i m"] send_to_client_ok [OF Cons.prems, of C i m]
  show ?case by (simp add: r)
qed simp

text \<open>Of messages for distinct receivers, or for the receivers 1 to \<open>n\<close>, each gets its own.\<close>

lemma filter_addressed:
  "distinct ps \<Longrightarrow> map snd (filter (\<lambda>(i, m). i = p) (map (\<lambda>q. (q, x)) ps)) = (if p \<in> set ps then [x] else [])"
  by (induction ps) auto

lemma unat_of_nat_plus_1:
  assumes "n + 1 < 2 ^ 64"
  shows "unat (of_nat n + 1 :: u64) = n + 1"
proof -
  have "(of_nat n + 1 :: u64) = of_nat (n + 1)" by simp
  moreover have "unat (of_nat (n + 1) :: u64) = n + 1"
    unfolding unat_of_nat using assms by (simp only: len_num1 len_num0 len_bit0 len_bit1 mod_less numeral_times_numeral)
      simp
  ultimately show ?thesis by (simp only:)
qed

lemma filter_numbered:
  assumes "n + 1 < 2 ^ 64"
  shows "map snd (filter (\<lambda>(i, m). i = k) (map (\<lambda>i. (of_nat i :: u64, x)) [1..<unat (of_nat n + 1 :: u64)])) =
           (if 1 \<le> unat k \<and> unat k \<le> n then [x] else [])"
proof -
  have "unat (of_nat n + 1 :: u64) = n + 1"
    by (rule unat_of_nat_plus_1 [OF assms])
  have small: "unat (of_nat i :: u64) = i" if "i \<in> {1..n}" for i
    using that assms by (simp add: unat_of_nat)
  have "inj_on (of_nat :: nat \<Rightarrow> u64) {1..n}"
    by (rule inj_onI) (metis small)
  then have "distinct (map (of_nat :: nat \<Rightarrow> u64) [1..<n + 1])"
    by (simp add: distinct_map atLeastLessThanSuc_atLeastAtMost del: upt_Suc)
  moreover have "k \<in> set (map of_nat [1..<n + 1]) \<longleftrightarrow> 1 \<le> unat k \<and> unat k \<le> n"
  proof
    assume "k \<in> set (map of_nat [1..<n + 1])"
    then obtain i where "i \<in> set [1..<n + 1]" "k = of_nat i" unfolding set_map by (rule imageE)
    moreover from this(1) have "i \<in> {1..n}" by auto
    ultimately have "unat k \<in> {1..n}" using small by simp
    then show "1 \<le> unat k \<and> unat k \<le> n" by simp
  next
    assume "1 \<le> unat k \<and> unat k \<le> n"
    then have "k = of_nat (unat k)" "unat k \<in> set [1..<n + 1]" by (auto simp: le_less)
    then show "k \<in> set (map of_nat [1..<n + 1])" unfolding set_map by (rule image_eqI)
  qed
  ultimately show ?thesis
    using filter_addressed [of "map of_nat [1..<n + 1]" k x] \<open>unat (of_nat n + 1 :: u64) = n + 1\<close>
    by (simp add: comp_def)
qed

locale server_libs =
  P: omnipaxos_lib "se_paxos E" decided proposed
  for E :: "('p, 'c, 'o, 's, 'm, 'q) server_env"
    and decided :: "'o \<Rightarrow> command list"
    and proposed :: "'o \<Rightarrow> command set"
begin

lemma send_outgoing_ok:
  assumes "net_inv (sv_network s)"
  shows "\<exists>s'. send_outgoing_msgs E s = Inr s' \<and> idle decided s s' \<and>
           client_connections (sv_network s') = client_connections (sv_network s)"
proof -
  let ?t = "op_take_outgoing_messages (se_paxos E) (sv_omnipaxos s)"
  let ?s = "s\<lparr>sv_omnipaxos := snd ?t, omnipaxos_msg_buffer := []\<rparr>"
  obtain net where "send_outgoing_msgs E s = Inr (?s\<lparr>sv_network := net\<rparr>)" "net_inv net"
    "client_connections net = client_connections (sv_network s)"
    using to_cluster_all_ok [of ?s E] assms
    by (auto simp: send_outgoing_msgs_def case_prod_beta Let_def)
  then show ?thesis by (simp add: idle_def P.take_decided)
qed

text \<open>Applying what is decided never panics, leaves nothing unapplied and answers in log order.\<close>

lemma handle_decided_ok:
  assumes "server_inv decided s"
  shows "\<exists>s'. handle_decided_entries E s = Inr s' \<and> server_inv decided s' \<and> sv_id s' = sv_id s \<and>
           sv_omnipaxos s' = sv_omnipaxos s \<and>
           current_decided_idx s' = length (decided (sv_omnipaxos s)) \<and>
           (\<forall>i. client_channel (sv_network s') i =
              feed (client_chan (se_chan E)) (client_channel (sv_network s) i)
                (map snd (filter (\<lambda>(j, m). j = i)
                  (snd (run_log (server_spec (sv_id s)) (sv_database s)
                          (drop (current_decided_idx s) (decided (sv_omnipaxos s))))))))"
proof (cases "current_decided_idx s < length (decided (sv_omnipaxos s))")
  case False
  with assms show ?thesis by (auto simp: handle_decided_entries_def P.decided_idx server_inv_def)
next
  case True
  let ?log = "decided (sv_omnipaxos s)" and ?i = "current_decided_idx s"
  let ?s = "s\<lparr>current_decided_idx := length ?log\<rparr>"
  let ?s' = "update_database_and_respond E ?s (drop ?i ?log)"
  from True have run: "handle_decided_entries E s = Inr ?s'"
    by (simp add: handle_decided_entries_def P.decided_idx P.read_suffix)
  let ?st = "(?s, snd (run_log (server_spec (sv_id s)) database_new (take ?i ?log)))"
  have "sv_database (fst (foldl (traced_apply E) ?st (drop ?i ?log))) =
      fst (run_log (server_spec (sv_id s)) database_new ?log)"
    using sv.catch_up(1) [of ?st database_new ?i ?log E] assms by (simp add: server_inv_def run_log_exec)
  then have "sv_database ?s' = exec database_new (kv_cmds ?log)"
    by (simp add: foldl_traced update_database_and_respond_def run_log_exec)
  with assms respond_all_channels [of "sv_network s" "se_chan E"] have "server_inv decided ?s'"
    by (simp add: server_inv_def update_database_spec)
  with run assms respond_all_channels [of "sv_network s" "se_chan E"] show ?thesis
    by (simp add: update_database_spec server_inv_def)
qed

lemma start_signals_ok:
  assumes "server_inv decided s"
  shows "server_inv decided (send_client_start_signals E s t) \<and> sv_id (send_client_start_signals E s t) = sv_id s"
  using assms respond_all_channels [of "sv_network s" "se_chan E"]
  by (simp add: start_signals_net server_inv_def)

lemma cluster_message_ok:
  assumes "server_inv decided s"
  shows "\<exists>b' s'. handle_cluster_message E (b, s) fm = Inr (b', s') \<and> server_inv decided s'"
proof (cases "snd fm")
  case (OmniPaxosMessage m)
  let ?s = "s\<lparr>sv_omnipaxos := op_handle_incoming (se_paxos E) m (sv_omnipaxos s)\<rparr>"
  have "idle decided s ?s" using assms by (simp add: idle_def server_inv_def P.incoming_decided)
  with assms have "server_inv decided ?s" by (rule server_inv_idle)
  from handle_decided_ok [OF this] OmniPaxosMessage show ?thesis
    by (auto simp: handle_cluster_message_def)
next
  case (LeaderStartSignal t)
  with start_signals_ok [OF assms] show ?thesis by (auto simp: handle_cluster_message_def)
qed

lemma cluster_messages_ok:
  assumes "server_inv decided s"
  shows "\<exists>b s'. handle_cluster_messages E s ms = Inr (b, s') \<and> server_inv decided s'"
proof -
  have "\<exists>st. fold_res (handle_cluster_message E) (False, s) ms = Inr st \<and> server_inv decided (snd st)"
  proof (rule fold_res_total)
    show "server_inv decided (snd (False, s))" using assms by simp
  next
    fix st :: "bool \<times> ('p, 'c, 'o, 'm, 'q) omnipaxos_server" and fm
    assume "server_inv decided (snd st)"
    from cluster_message_ok [OF this, of "fst st" fm]
    show "\<exists>st'. handle_cluster_message E st fm = Inr st' \<and> server_inv decided (snd st')" by auto
  qed
  then obtain b s1 where s1: "fold_res (handle_cluster_message E) (False, s) ms = Inr (b, s1)"
    "server_inv decided s1" by auto
  then obtain s' where "send_outgoing_msgs E s1 = Inr s'" "idle decided s1 s'"
    using send_outgoing_ok [of s1] by (auto simp: server_inv_def)
  with s1 server_inv_idle show ?thesis by (fastforce simp: handle_cluster_messages_def)
qed

text \<open>Client messages and ticks apply nothing.\<close>

lemma append_all_idle:
  assumes "fold_res (\<lambda>s (client, msg). case msg of Append i c \<Rightarrow> append_to_log E s client i c) s ms = Inr s'"
    and "server_inv decided s"
  shows "idle decided s s' \<and> client_connections (sv_network s') = client_connections (sv_network s)"
proof (rule fold_res_invariant [OF assms(1), where P = "\<lambda>s'. idle decided s s' \<and>
    client_connections (sv_network s') = client_connections (sv_network s)"])
  fix u x u'
  assume u: "idle decided s u \<and> client_connections (sv_network u) = client_connections (sv_network s)"
    and step: "(case x of (client, msg) \<Rightarrow> case msg of Append i c \<Rightarrow> append_to_log E u client i c) = Inr u'"
  obtain client i c where x: "x = (client, Append i c)" by (metis client_message.exhaust surj_pair)
  from step obtain o' where o': "u' = u\<lparr>sv_omnipaxos := o'\<rparr>"
    "prefix (decided (sv_omnipaxos u)) (decided o')"
    using P.append_decided [of "sv_omnipaxos u"]
    by (auto simp: x append_to_log_def case_prod_beta Let_def split: if_splits)
  with u show "idle decided s u' \<and> client_connections (sv_network u') = client_connections (sv_network s)"
    by (auto simp: idle_def intro: prefix_order.trans)
qed (use assms(2) in \<open>simp add: idle_self\<close>)

lemma client_messages_idle:
  assumes "handle_client_messages E s ms = Inr s'" "server_inv decided s"
  shows "idle decided s s' \<and> client_connections (sv_network s') = client_connections (sv_network s)"
proof -
  obtain u where u: "fold_res (\<lambda>s (client, msg). case msg of Append i c \<Rightarrow> append_to_log E s client i c) s ms
      = Inr u" "send_outgoing_msgs E u = Inr s'"
    using assms(1) by (auto simp: handle_client_messages_def bind_res_eq_Inr)
  from append_all_idle [OF u(1) assms(2)] have "idle decided s u"
    "client_connections (sv_network u) = client_connections (sv_network s)" by simp_all
  with send_outgoing_ok [of u] u(2) idle_trans show ?thesis by (fastforce simp: idle_def)
qed

lemma tick_idle:
  assumes "server_inv decided s"
  shows "\<exists>s'. server_step E s ElectionTick = Inr s' \<and> idle decided s s' \<and>
           client_connections (sv_network s') = client_connections (sv_network s)"
proof -
  let ?s = "s\<lparr>sv_omnipaxos := op_tick (se_paxos E) (sv_omnipaxos s)\<rparr>"
  have "idle decided s ?s" using assms by (simp add: idle_def server_inv_def P.tick_decided)
  moreover obtain s' where "send_outgoing_msgs E ?s = Inr s'" "idle decided ?s s'"
    "client_connections (sv_network s') = client_connections (sv_network s)"
    using send_outgoing_ok [of ?s] assms by (auto simp: server_inv_def)
  ultimately show ?thesis using idle_trans by auto
qed

subsection \<open>The invariant along a run\<close>

lemma server_step_inv: "server_inv decided s \<Longrightarrow> server_step E s ev = Inr s' \<Longrightarrow> server_inv decided s'"
proof (cases ev)
  case (ClusterBatch ms)
  assume "server_inv decided s" "server_step E s ev = Inr s'"
  with cluster_messages_ok [of s ms] ClusterBatch show ?thesis by auto
next
  case (ClientBatch ms)
  assume "server_inv decided s" "server_step E s ev = Inr s'"
  with client_messages_idle [of s ms s'] ClientBatch show ?thesis by (auto intro: server_inv_idle)
next
  case ElectionTick
  assume "server_inv decided s" "server_step E s ev = Inr s'"
  with tick_idle [of s] ElectionTick show ?thesis by (auto intro: server_inv_idle)
qed simp

lemma leader_tick_ok:
  assumes "server_inv decided s"
  shows "\<exists>b s'. leader_tick E s t = Inr (b, s') \<and> server_inv decided s'"
proof -
  obtain net where net: "send_cluster_start_signals E s (t + 2000) = Inr (s\<lparr>sv_network := net\<rparr>)" "net_inv net"
    using to_cluster_all_ok [of s E] assms by (auto simp: send_cluster_start_signals_def server_inv_def)
  with assms have "server_inv decided (s\<lparr>sv_network := net\<rparr>)" by (simp add: server_inv_def)
  note signals = start_signals_ok [OF this, of "t + 2000"]
  let ?s = "s\<lparr>sv_omnipaxos := op_try_become_leader (se_paxos E) (sv_omnipaxos s)\<rparr>"
  have "idle decided s ?s" using assms by (simp add: idle_def server_inv_def P.lead_decided)
  moreover obtain s' where "send_outgoing_msgs E ?s = Inr s'" "idle decided ?s s'"
    using send_outgoing_ok [of ?s] assms by (auto simp: server_inv_def)
  ultimately have "send_outgoing_msgs E ?s = Inr s'" "server_inv decided s'"
    using assms idle_trans server_inv_idle by blast+
  with net(1) signals show ?thesis by (auto simp: leader_tick_def Let_def)
qed

lemma establish_step_inv:
  assumes "server_inv decided s" "establish_step E s ev = Inr (b, s')"
  shows "server_inv decided s'"
proof (cases ev)
  case (LeaderTick t)
  with assms leader_tick_ok [OF assms(1), of t] show ?thesis by (auto split: if_splits)
next
  case (ClusterBatch ms)
  with assms cluster_messages_ok [of s ms] show ?thesis by auto
next
  case (ClientBatch ms)
  with assms client_messages_idle [of s ms s'] show ?thesis
    by (auto simp: bind_res_eq_Inr intro: server_inv_idle)
next
  case ElectionTick
  with assms show ?thesis by simp
qed

lemma establish_inv:
  "establish_initial_leader E s evs = Inr (b, s') \<Longrightarrow> server_inv decided s \<Longrightarrow> server_inv decided s'"
proof (induction evs arbitrary: s)
  case (Cons ev evs)
  then obtain d u where "establish_step E s ev = Inr (d, u)"
    "(if d then Inr (True, u) else establish_initial_leader E u evs) = Inr (b, s')"
    by (auto simp: bind_res_eq_Inr)
  with Cons establish_step_inv show ?case by (metis Pair_inject sum.inject(2))
qed simp

lemma server_run_inv:
  assumes "server_run E saved s startup evs = Inr s'" "server_inv decided s"
  shows "server_inv decided s'"
proof -
  obtain d u where u: "establish_initial_leader E s startup = Inr (d, u)"
    "(if d then fold_res (server_step E) u evs else Inr u) = Inr s'"
    using assms(1) by (auto simp: server_run_def bind_res_eq_Inr)
  from establish_inv [OF u(1) assms(2)] have "server_inv decided u" .
  with u(2) show ?thesis
    by (cases d) (auto intro: fold_res_invariant [where P = "server_inv decided"] server_step_inv)
qed

lemma server_new_inv: "server_new E cfg net = Inr s \<Longrightarrow> net_inv net \<Longrightarrow> server_inv decided s"
  by (auto simp: server_new_def bind_res_eq_Inr server_inv_def dest: P.build_decided)

end


section \<open>A concrete server\<close>

text \<open>A cluster of one over the leader-based log, with one client, and its channels as queues.\<close>

type_synonym lone_msg = "op_node_id \<times> command list"

definition lone_server_env ::
    "(lone_msg cluster_message queue_channel, server_message queue_channel, command leader_log, kv_snapshot,
      lone_msg, unit) server_env" where
  "lone_server_env = \<lparr>se_paxos = leader_paxos, se_chan = queue_channels\<rparr>"

interpretation lone: server_libs lone_server_env ll_log "\<lambda>s. set (ll_proposed s)"
  unfolding server_libs_def lone_server_env_def by (simp add: lp.omnipaxos_lib_axioms)

definition lone_config :: "unit kv_config" where
  "lone_config =
     \<lparr>cfg_local = \<lparr>location = None, server_id = 1, listen_address = ''a'', listen_port = 80,
        num_clients = 1, output_filepath = ''o''\<rparr>,
      cfg_cluster = \<lparr>nodes = [1], node_addrs = [''a''], initial_leader = 1,
        initial_flexible_quorum = None\<rparr>\<rparr>"

definition lone_client :: "server_message list \<Rightarrow> (u64 \<times> server_message queue_channel connection) list" where
  "lone_client ms = [(1, \<lparr>conn_id = 1, conn_out = \<lparr>qc_open = True, qc_sent = ms\<rparr>\<rparr>)]"

definition lone_net ::
    "server_message list
       \<Rightarrow> (lone_msg cluster_message queue_channel, server_message queue_channel) server_network" where
  "lone_net ms =
     \<lparr>net_peers = [], peer_connections = [], client_connections = lone_client ms, max_client_id = 0,
      batch_size = 100\<rparr>"

definition lone_server ::
    "command list \<Rightarrow> server_message list
       \<Rightarrow> (lone_msg cluster_message queue_channel, server_message queue_channel, command leader_log,
           lone_msg, unit) omnipaxos_server" where
  "lone_server lg ms =
     \<lparr>sv_id = 1, sv_database = database_new, sv_network = lone_net ms,
      sv_omnipaxos = \<lparr>ll_pid = 1, ll_nodes = [1], ll_log = lg, ll_proposed = lg, ll_out = []\<rparr>,
      current_decided_idx = 0, omnipaxos_msg_buffer = [], sv_config = lone_config, sv_peers = []\<rparr>"

definition lone_put :: command where
  "lone_put = \<lparr>cmd_client_id = 1, cmd_coordinator_id = 1, cmd_id = 0, kv_cmd = Put ''k'' ''v''\<rparr>"

lemma lone_net_inv: "net_inv (lone_net ms)"
  by (simp add: net_inv_def lone_net_def lone_client_def)

lemma lone_server_inv: "server_inv ll_log (lone_server lg ms)"
  by (simp add: server_inv_def lone_server_def lone_net_inv)

lemma lone_new: "server_new lone_server_env lone_config (lone_net []) = Inr (lone_server [] [])"
  by (simp add: server_new_def lone_server_env_def leader_paxos_def config_into_def lone_config_def
      lone_server_def get_peers_def)

lemma lone_append:
  "server_step lone_server_env (lone_server [] ms) (ClientBatch [(1, Append 0 (Put ''k'' ''v''))]) =
     Inr (lone_server [lone_put] ms)"
  by (simp add: handle_client_messages_def append_to_log_def send_outgoing_msgs_def lone_server_def
      lone_server_env_def leader_paxos_def ll_append_def lone_put_def Let_def)

section \<open>Properties\<close>

text \<open>
  C24. The server is a correct replica, from its configuration on: whenever \<open>main\<close> gets through start-up
  and any events without a panic, the database is exactly the execution of the decided entries the server
  has applied, in log order, and the server was created from the configuration it read with at least
  \<open>num_clients\<close> clients connected and a connection to every other configured node that is given an
  address (\<open>zip\<close> drops the nodes beyond the last address).
\<close>

theorem server_serves_log:
  assumes "server_libs E decided proposed"
    and "server_main E F to_string_pretty var load from_str to_socket_addrs conns startup evs = Inr (Some s')"
  shows "current_decided_idx s' \<le> length (decided (sv_omnipaxos s')) \<and>
         sv_database s' =
           exec database_new (map kv_cmd (take (current_decided_idx s') (decided (sv_omnipaxos s')))) \<and>
         (\<exists>cfg net s. config_new var load = Inr (Inr cfg) \<and>
            network_new from_str to_socket_addrs cfg 100 conns = Inr (True, net) \<and>
            num_clients (cfg_local cfg) \<le> length (client_connections net) \<and>
            (\<forall>p\<in>set (take (length (node_addrs (cfg_cluster cfg))) (nodes (cfg_cluster cfg))) -
                  {server_id (cfg_local cfg)}. peer_channel net p \<noteq> None) \<and>
            server_new E cfg net = Inr s \<and> server_run E (save_output F to_string_pretty s) s startup evs = Inr s')"
proof -
  obtain cfg s where cfg: "config_new var load = Inr (Inr cfg)"
    "server_start E from_str to_socket_addrs cfg conns = Inr (Some s)"
    "server_run E (save_output F to_string_pretty s) s startup evs = Inr s'"
    using assms(2) unfolding server_main_def bind_res_eq_Inr case_sum_eq_Inr case_option_eq_Some by blast
  obtain net where net: "network_new from_str to_socket_addrs cfg 100 conns = Inr (True, net)"
    "server_new E cfg net = Inr s"
    using cfg(2) by (auto simp: server_start_def bind_res_eq_Inr split: if_split_asm)
  from network_new_inv [OF net(1)] have conn: "net_inv net" "all_connected (num_clients (cfg_local cfg)) net"
    by simp_all
  then have clients: "num_clients (cfg_local cfg) \<le> length (client_connections net)"
    by (simp add: all_connected_def)
  have peers: "\<forall>p\<in>set (take (length (node_addrs (cfg_cluster cfg))) (nodes (cfg_cluster cfg))) -
      {server_id (cfg_local cfg)}. peer_channel net p \<noteq> None"
    using all_connected_channel [OF conn] network_new_peers [OF net(1)] by simp
  from server_libs.server_run_inv [OF assms(1) cfg(3) server_libs.server_new_inv [OF assms(1) net(2) conn(1)]]
  have "current_decided_idx s' \<le> length (decided (sv_omnipaxos s'))" "sv_database s' =
      exec database_new (map kv_cmd (take (current_decided_idx s') (decided (sv_omnipaxos s'))))"
    by (auto simp: server_inv_def)
  with cfg(1,3) net clients peers show ?thesis by blast
qed

lemma lone_run:
  "server_run lone_server_env (Some f) (lone_server [] [])
     [LeaderTick 5] [ClientBatch [(1, Append 0 (Put ''k'' ''v''))], ClusterBatch [(1, OmniPaxosMessage (1, [lone_put]))]] =
   Inr ((lone_server [lone_put] [StartSignal 2005, WriteResp 0])
          \<lparr>current_decided_idx := 1, sv_database := \<lparr>db = [''k'' \<mapsto> ''v'']\<rparr>\<rparr>)"
proof -
  have start: "establish_initial_leader lone_server_env (lone_server [] []) [LeaderTick 5] =
      Inr (True, lone_server [] [StartSignal 2005])"
    by (simp add: leader_tick_def lone_server_def lone_server_env_def leader_paxos_def lone_config_def
        send_cluster_start_signals_def send_client_start_signals_def send_to_client_def lone_net_def
        lone_client_def queue_channels_def queue_send_def Let_def upt_rec)
  have applied: "server_step lone_server_env (lone_server [lone_put] [StartSignal 2005])
      (ClusterBatch [(1, OmniPaxosMessage (1, [lone_put]))]) =
    Inr ((lone_server [lone_put] [StartSignal 2005, WriteResp 0])
          \<lparr>current_decided_idx := 1, sv_database := \<lparr>db = [''k'' \<mapsto> ''v'']\<rparr>\<rparr>)"
    by (simp add: handle_cluster_messages_def handle_cluster_message_def handle_decided_entries_def
        update_database_and_respond_def apply_command_def send_outgoing_msgs_def lone_server_def
        lone_server_env_def leader_paxos_def ll_handle_incoming_def lone_put_def database_new_def
        send_to_client_def lone_net_def lone_client_def queue_channels_def queue_send_def Let_def)
  show ?thesis
    by (simp add: server_run_def start lone_append applied del: server_step.simps establish_initial_leader.simps)
qed

lemma lone_start:
  "server_start lone_server_env Some (\<lambda>s. Some [s]) lone_config
     [ToClient \<lparr>conn_id = 1, conn_out = \<lparr>qc_open = True, qc_sent = []\<rparr>\<rparr>] = Inr (Some (lone_server [] []))"
proof -
  have "network_new Some (\<lambda>s. Some [s]) lone_config 100
      [ToClient \<lparr>conn_id = 1, conn_out = \<lparr>qc_open = True, qc_sent = []\<rparr>\<rparr>] = Inr (True, lone_net [])"
    by (simp add: network_new_def get_addrs_def lone_config_def network_empty_def peer_addresses_def
        connect_def all_connected_def lone_net_def lone_client_def Let_def)
  with lone_new show ?thesis
    by (simp add: server_start_def lone_server_env_def leader_paxos_def)
qed

definition plain_files :: "(string \<times> string) file_ops" where
  "plain_files = \<lparr>fo_create = (\<lambda>path. Some (path, [])), fo_write = (\<lambda>(path, s) t. Some (path, s @ t)),
     fo_flush = Some\<rparr>"

theorem server_serves_log_witness:
  "exec database_new [Put ''k'' ''v''] = \<lparr>db = [''k'' \<mapsto> ''v'']\<rparr>"
proof -
  have "server_main lone_server_env plain_files (\<lambda>_. Some ''{}'') Some (\<lambda>_ _. Inr lone_config) Some
      (\<lambda>s. Some [s]) [ToClient \<lparr>conn_id = 1, conn_out = \<lparr>qc_open = True, qc_sent = []\<rparr>\<rparr>] [LeaderTick 5]
      [ClientBatch [(1, Append 0 (Put ''k'' ''v''))], ClusterBatch [(1, OmniPaxosMessage (1, [lone_put]))]] =
    Inr (Some ((lone_server [lone_put] [StartSignal 2005, WriteResp 0])
          \<lparr>current_decided_idx := 1, sv_database := \<lparr>db = [''k'' \<mapsto> ''v'']\<rparr>\<rparr>))"
    by (simp add: server_main_def config_new_def lone_start save_output_def write_json_def plain_files_def
        lone_run)
  from server_serves_log [OF lone.server_libs_axioms this] show ?thesis
    by (simp add: lone_server_def lone_put_def)
qed

text \<open>
  C25. Decided entries are applied and answered once and in order: processing them never panics, nothing
  decided is left unapplied, and every client's channel takes exactly the answers the sequential
  database gives to the entries of that client that this server coordinates, in log order.
\<close>

theorem decided_entries_answered:
  assumes "server_libs E decided proposed" "server_inv decided s"
  shows "\<exists>s'. handle_decided_entries E s = Inr s' \<and>
           current_decided_idx s' = length (decided (sv_omnipaxos s')) \<and>
           sv_database s' = exec database_new (map kv_cmd (decided (sv_omnipaxos s'))) \<and>
           (\<forall>i. client_channel (sv_network s') i =
              feed (client_chan (se_chan E)) (client_channel (sv_network s) i)
                (map snd (filter (\<lambda>(j, m). j = i)
                  (snd (run_log (server_spec (sv_id s)) (sv_database s)
                          (drop (current_decided_idx s) (decided (sv_omnipaxos s))))))))"
proof -
  obtain s' where s': "handle_decided_entries E s = Inr s'" "server_inv decided s'"
    "sv_omnipaxos s' = sv_omnipaxos s" "current_decided_idx s' = length (decided (sv_omnipaxos s))"
    "\<forall>i. client_channel (sv_network s') i =
       feed (client_chan (se_chan E)) (client_channel (sv_network s) i)
         (map snd (filter (\<lambda>(j, m). j = i)
           (snd (run_log (server_spec (sv_id s)) (sv_database s)
                   (drop (current_decided_idx s) (decided (sv_omnipaxos s)))))))"
    using server_libs.handle_decided_ok [OF assms] by blast
  then show ?thesis by (intro exI [of _ s']) (simp add: server_inv_def)
qed

theorem decided_entries_answered_witness:
  "\<exists>s'. handle_decided_entries lone_server_env (lone_server [lone_put] []) = Inr s' \<and>
     client_channel (sv_network s') 1 = Some \<lparr>qc_open = True, qc_sent = [WriteResp 0]\<rparr>"
proof -
  have "client_channel (lone_net []) 1 = Some \<lparr>qc_open = True, qc_sent = []\<rparr>"
    by (simp add: client_channel_def lone_net_def lone_client_def)
  with decided_entries_answered [OF lone.server_libs_axioms lone_server_inv [of "[lone_put]" "[]"]]
  show ?thesis
    by (auto simp: lone_server_def server_spec_def lone_put_def lone_server_env_def queue_channels_def
        queue_send_def)
qed

text \<open>
  C26. The start signal reaches everyone: once the consensus library reports this server as leader in
  its accept phase, the next tick ends the wait, and every peer and every client 1 to \<open>num_clients\<close>
  that is connected is sent exactly one start signal, all with the same time two seconds ahead.
\<close>

theorem start_signal_broadcast:
  fixes E :: "('p, 'c, 'o, 's, 'm, 'q) server_env"
  assumes "server_libs E decided proposed" "server_inv decided s"
    and "op_get_current_leader (se_paxos E) (sv_omnipaxos s) = Some (sv_id s, True)"
    and "initial_leader (cfg_cluster (sv_config s)) = sv_id s" "distinct (sv_peers s)"
    and "num_clients (cfg_local (sv_config s)) + 1 < 2 ^ 64"
  shows "\<exists>s'. establish_step E s (LeaderTick now_ms) = Inr (True, s') \<and>
           (\<forall>p. peer_channel (sv_network s') p = feed (peer_chan (se_chan E)) (peer_channel (sv_network s) p)
              (if p \<in> set (sv_peers s) then [LeaderStartSignal (now_ms + 2000)] else [])) \<and>
           (\<forall>k. client_channel (sv_network s') k = feed (client_chan (se_chan E)) (client_channel (sv_network s) k)
              (if 1 \<le> unat k \<and> unat k \<le> num_clients (cfg_local (sv_config s))
               then [StartSignal (now_ms + 2000)] else []))"
proof -
  define sig where "sig = map (\<lambda>peer. (peer, LeaderStartSignal (now_ms + 2000) :: 'm cluster_message)) (sv_peers s)"
  define cl where "cl = map (\<lambda>i. (of_nat i :: u64, StartSignal (now_ms + 2000)))
      [1..<unat (of_nat (num_clients (cfg_local (sv_config s))) + 1 :: u64)]"
  have inv: "net_inv (sv_network s)" using assms(2) by (simp add: server_inv_def)
  obtain net where net: "fold_res (to_cluster E) s sig = Inr (s\<lparr>sv_network := net\<rparr>)" "net_inv net"
    "client_connections net = client_connections (sv_network s)"
    "\<forall>p. peer_channel net p = feed (peer_chan (se_chan E)) (peer_channel (sv_network s) p)
       (map snd (filter (\<lambda>(i, m). i = p) sig))"
    using to_cluster_all_channels [OF inv] by blast
  let ?net = "respond_all (se_chan E) net cl"
  have peers: "peer_channel ?net p = feed (peer_chan (se_chan E)) (peer_channel (sv_network s) p)
      (if p \<in> set (sv_peers s) then [LeaderStartSignal (now_ms + 2000)] else [])" for p
    by (simp add: respond_all_peers [OF net(2)] net(4) sig_def filter_addressed [OF assms(5)])
  have "client_channel net = client_channel (sv_network s)"
    by (simp add: fun_eq_iff client_channel_def net(3))
  with respond_all_channels [OF net(2), of "se_chan E" cl]
  have clients: "client_channel ?net k = feed (client_chan (se_chan E)) (client_channel (sv_network s) k)
      (if 1 \<le> unat k \<and> unat k \<le> num_clients (cfg_local (sv_config s))
       then [StartSignal (now_ms + 2000)] else [])" for k
    by (simp only: cl_def simp_thms filter_numbered [OF assms(6)])
  have "establish_step E s (LeaderTick now_ms) = Inr (True, s\<lparr>sv_network := ?net\<rparr>)"
    using assms(3,4) net(1)
    by (simp add: leader_tick_def send_cluster_start_signals_def start_signals_net sig_def cl_def del: upt_Suc)
  with peers clients show ?thesis by (intro exI [of _ "s\<lparr>sv_network := ?net\<rparr>"]) simp
qed

theorem start_signal_broadcast_witness:
  "\<exists>s'. establish_step lone_server_env (lone_server [] []) (LeaderTick 5) = Inr (True, s') \<and>
     client_channel (sv_network s') 1 = Some \<lparr>qc_open = True, qc_sent = [StartSignal 2005]\<rparr>"
proof -
  have "client_channel (lone_net []) 1 = Some \<lparr>qc_open = True, qc_sent = []\<rparr>"
    by (simp add: client_channel_def lone_net_def lone_client_def)
  with start_signal_broadcast [OF lone.server_libs_axioms lone_server_inv [of "[]" "[]"], of 5] show ?thesis
    by (auto simp: lone_server_def lone_config_def lone_server_env_def leader_paxos_def queue_channels_def
        queue_send_def simp del: establish_step.simps)
qed

text \<open>
  C30. The only event that can bring the server down is a client request whose append the consensus
  library refuses: every other event, and a client batch under a library that takes every append, is
  handled without a panic.
\<close>

theorem server_step_total:
  assumes "server_libs E decided proposed" "server_inv decided s"
    and "\<forall>ms. ev = ClientBatch ms \<longrightarrow> (\<forall>c p. fst (op_append (se_paxos E) c p))"
  shows "\<exists>s'. server_step E s ev = Inr s'"
proof (cases ev)
  case (LeaderTick t)
  then show ?thesis by simp
next
  case ElectionTick
  with server_libs.tick_idle [OF assms(1,2)] show ?thesis by auto
next
  case (ClusterBatch ms)
  with server_libs.cluster_messages_ok [OF assms(1,2), of ms] show ?thesis by auto
next
  case (ClientBatch ms)
  let ?app = "\<lambda>s (client, msg). case msg of Append i c \<Rightarrow> append_to_log E s client i c"
  have "\<exists>u. fold_res ?app s ms = Inr u \<and> True"
  proof (rule fold_res_total)
    fix u x
    show "\<exists>u'. ?app u x = Inr u' \<and> True"
      using assms(3) ClientBatch
      by (auto simp: append_to_log_def case_prod_beta Let_def split: client_message.split)
  qed simp
  then obtain u where u: "fold_res ?app s ms = Inr u" by blast
  from server_libs.append_all_idle [OF assms(1) u assms(2)] have "net_inv (sv_network u)"
    by (simp add: idle_def)
  from server_libs.send_outgoing_ok [OF assms(1) this] u ClientBatch show ?thesis
    by (auto simp: handle_client_messages_def)
qed

theorem server_step_total_witness:
  "\<exists>s'. server_step lone_server_env (lone_server [lone_put] []) (ClusterBatch [(1, LeaderStartSignal 9)]) = Inr s'"
  by (rule server_step_total [OF lone.server_libs_axioms lone_server_inv]) simp

text \<open>
  C34. The main loop applies decided entries only when messages of the cluster arrive: whatever the
  library has decided in the meantime, election ticks and client batches leave the database, the
  applied index and every client's channel as they were. A server without peers never answers.
\<close>

theorem only_cluster_messages_apply:
  assumes "server_libs E decided proposed" "server_inv decided s"
    and "\<forall>ev\<in>set evs. \<forall>ms. ev \<noteq> ClusterBatch ms" "fold_res (server_step E) s evs = Inr s'"
  shows "sv_database s' = sv_database s \<and> current_decided_idx s' = current_decided_idx s \<and>
         client_connections (sv_network s') = client_connections (sv_network s)"
proof -
  let ?Q = "\<lambda>u. server_inv decided u \<and> sv_database u = sv_database s \<and>
      current_decided_idx u = current_decided_idx s \<and>
      client_connections (sv_network u) = client_connections (sv_network s)"
  have "?Q s'"
  proof (rule fold_res_invariant [OF assms(4), of ?Q])
    fix u ev u'
    assume ev: "ev \<in> set evs" and u: "?Q u" and step: "server_step E u ev = Inr u'"
    have "idle decided u u' \<and> client_connections (sv_network u') = client_connections (sv_network u)"
    proof (cases ev)
      case (ClientBatch ms)
      with u step show ?thesis using server_libs.client_messages_idle [OF assms(1), of u ms u'] by simp
    next
      case ElectionTick
      with u step show ?thesis using server_libs.tick_idle [OF assms(1), of u] by auto
    next
      case (ClusterBatch ms)
      with ev assms(3) show ?thesis by blast
    next
      case (LeaderTick t)
      with u step show ?thesis by (simp add: idle_self)
    qed
    with u show "?Q u'" by (auto simp: idle_def intro: server_inv_idle)
  qed (use assms(2) in simp)
  then show ?thesis by simp
qed

theorem only_cluster_messages_apply_witness:
  "current_decided_idx (lone_server [lone_put] []) = 0 \<and> length (ll_log (sv_omnipaxos (lone_server [lone_put] []))) = 1"
proof -
  have "fold_res (server_step lone_server_env) (lone_server [] []) [ClientBatch [(1, Append 0 (Put ''k'' ''v''))]]
      = Inr (lone_server [lone_put] [])"
    by (simp add: lone_append del: server_step.simps)
  from only_cluster_messages_apply [OF lone.server_libs_axioms lone_server_inv _ this] show ?thesis
    by (simp add: lone_server_def)
qed


end
