(* ===== verification/Server_Cluster.thy ===== *)
theory Server_Cluster
  imports Server Run_History Interleaved_Runs
begin

text \<open>
  Several servers of \<open>src/server/server.rs\<close> running side by side over consensus. The locale
  \<open>server_consensus_run\<close> states what the consensus library documents of a whole cluster: every
  decided log is a prefix of one log, and what is decided was proposed at some server. What clients
  observe are the requests that reach the servers and the answers in their channels; with numbered
  requests that are decided at most once (\<open>exactly_once_servers\<close>) it is linearizable for the sequential
  database \<open>db_spec\<close>, and whatever is due is answered.
\<close>

section \<open>The life of a server\<close>

text \<open>
  Both loops of \<open>run\<close> in one step function: the flag says whether the first loop has ended. A panic
  ends the server.
\<close>

definition server_turn ::
    "('p, 'c, 'o, 's, 'm, 'q) server_env \<Rightarrow> bool \<times> ('p, 'c, 'o, 'm, 'q) omnipaxos_server \<Rightarrow> 'm server_event
       \<Rightarrow> (bool \<times> ('p, 'c, 'o, 'm, 'q) omnipaxos_server) res" where
  "server_turn E n ev =
     (if fst n then bind_res (server_step E (snd n) ev) (\<lambda>s'. Inr (True, s'))
      else establish_step E (snd n) ev)"

lemma server_turn_simps [simp]:
  "server_turn E (True, s) ev = bind_res (server_step E s ev) (\<lambda>s'. Inr (True, s'))"
  "server_turn E (False, s) ev = establish_step E s ev"
  by (simp_all add: server_turn_def)

text \<open>Turn by turn the server does what \<open>server_run\<close> does.\<close>

lemma fold_turn_running:
  "fold_res (server_turn E) (True, s) evs = bind_res (fold_res (server_step E) s evs) (\<lambda>s'. Inr (True, s'))"
proof (induction evs arbitrary: s)
  case (Cons ev evs)
  then show ?case by (cases "server_step E s ev") simp_all
qed simp

lemma server_run_turns:
  assumes "establish_initial_leader E s startup = Inr (True, u)"
  obtains pre where "prefix pre startup"
    "fold_res (server_turn E) (False, s) (pre @ evs) =
       bind_res (server_run E (Some f) s startup evs) (\<lambda>s'. Inr (True, s'))"
proof -
  have "\<exists>pre. prefix pre startup \<and>
      fold_res (server_turn E) (False, s) (pre @ evs) = fold_res (server_turn E) (True, u) evs"
    using assms
  proof (induction startup arbitrary: s)
    case (Cons ev startup)
    then obtain fin v where v: "establish_step E s ev = Inr (fin, v)"
      "(if fin then Inr (True, v) else establish_initial_leader E v startup) = Inr (True, u)"
      by (auto simp: bind_res_eq_Inr)
    show ?case
    proof (cases fin)
      case True
      with v show ?thesis by (intro exI [of _ "[ev]"]) simp
    next
      case False
      with Cons.IH [of v] v(2) obtain pre where "prefix pre startup"
        "fold_res (server_turn E) (False, v) (pre @ evs) = fold_res (server_turn E) (True, u) evs" by auto
      with v(1) False show ?thesis by (intro exI [of _ "ev # pre"]) simp
    qed
  qed simp
  with assms that show thesis by (auto simp: fold_turn_running server_run_def)
qed

section \<open>Clusters and runs\<close>

type_synonym ('p, 'c, 'o, 'm, 'q) servers =
  "(op_node_id, bool \<times> ('p, 'c, 'o, 'm, 'q) omnipaxos_server) cluster"

text \<open>Every server has just been created under its own id, with its connections established.\<close>

definition fresh_servers ::
    "('p, 'c, 'o, 's, 'm, 'q) server_env \<Rightarrow> ('p, 'c, 'o, 'm, 'q) servers \<Rightarrow> bool" where
  "fresh_servers E c \<longleftrightarrow>
     (\<forall>i n. cl_nodes c i = Some n \<longrightarrow>
        \<not> fst n \<and> sv_id (snd n) = i \<and>
        (\<exists>cfg net. net_inv net \<and> server_new E cfg net = Inr (snd n)))"

text \<open>The commands an event asks a server to append.\<close>

definition batch_commands :: "op_node_id \<Rightarrow> (u64 \<times> client_message) list \<Rightarrow> command list" where
  "batch_commands i ms =
     map (\<lambda>(client, msg). case msg of Append k q \<Rightarrow>
            \<lparr>cmd_client_id = client, cmd_coordinator_id = i, cmd_id = k, kv_cmd = q\<rparr>) ms"

fun asked_commands :: "op_node_id \<Rightarrow> 'm server_event \<Rightarrow> command list" where
  "asked_commands i (ClientBatch ms) = batch_commands i ms"
| "asked_commands i _ = []"

definition server_requests :: "(op_node_id \<times> 'm server_event) list \<Rightarrow> nat \<Rightarrow> command list" where
  "server_requests evs t = asked_commands (fst (evs ! t)) (snd (evs ! t))"

definition asked_at :: "(op_node_id \<times> 'm server_event) list \<Rightarrow> nat \<Rightarrow> command \<Rightarrow> bool" where
  "asked_at evs t c \<longleftrightarrow> c \<in> set (server_requests evs t)"

text \<open>The sequential database as an object: the result of a write is \<open>None\<close>.\<close>

fun db_spec :: "(string \<rightharpoonup> string) \<Rightarrow> kv_command \<Rightarrow> (string \<rightharpoonup> string) \<times> string option option" where
  "db_spec d (Put key v) = (d(key \<mapsto> v), None)"
| "db_spec d (Delete key) = (d(key := None), None)"
| "db_spec d (Get key) = (d, Some (d key))"

abbreviation entry_result :: "command list \<Rightarrow> nat \<Rightarrow> string option option" where
  "entry_result \<equiv> result_at db_spec kv_cmd Map.empty"

text \<open>The database of the code behaves as the sequential database.\<close>

lemma handle_command_spec: "(db (snd (handle_command d q)), fst (handle_command d q)) = db_spec (db d) q"
  by (cases q) simp_all

lemma handle_command_simps:
  "db (snd (handle_command d q)) = fst (db_spec (db d) q)" "fst (handle_command d q) = snd (db_spec (db d) q)"
  using handle_command_spec [of d q] by (metis fst_conv snd_conv)+

section \<open>What clients observe of a run\<close>

text \<open>
  A client recognises the answer to a request by the connection it comes over, which stands for the
  server and for the client's id there, and by the number of the request.
\<close>

definition command_route :: "command \<Rightarrow> op_node_id \<times> u64 \<times> nat" where
  "command_route c = (cmd_coordinator_id c, cmd_client_id c, cmd_id c)"

fun response_id :: "server_message \<Rightarrow> nat option" where
  "response_id (StartSignal _) = None"
| "response_id (WriteResp i) = Some i"
| "response_id (ReadResp i _) = Some i"

fun response_result :: "server_message \<Rightarrow> string option option option" where
  "response_result (StartSignal _) = None"
| "response_result (WriteResp _) = Some None"
| "response_result (ReadResp _ v) = Some (Some v)"

text \<open>
  The first answer to a request that its coordinator has put into the client's channel, after \<open>t\<close>
  events, and its result; \<open>sent\<close> reads off a channel what it has taken.
\<close>

definition server_answer ::
    "('p, 'c, 'o, 's, 'm, 'q) server_env \<Rightarrow> ('c \<Rightarrow> server_message list) \<Rightarrow> ('p, 'c, 'o, 'm, 'q) servers
       \<Rightarrow> (op_node_id \<times> 'm server_event) list \<Rightarrow> nat \<Rightarrow> command \<Rightarrow> server_message option" where
  "server_answer E sent c0 evs t c =
     (case cl_nodes (cluster_at (server_turn E) c0 evs t) (cmd_coordinator_id c) of
        None \<Rightarrow> None
      | Some n \<Rightarrow>
          (case client_channel (sv_network (snd n)) (cmd_client_id c) of
             None \<Rightarrow> None
           | Some ch \<Rightarrow> find (\<lambda>m. response_id m = Some (cmd_id c)) (sent ch)))"

definition server_result ::
    "('p, 'c, 'o, 's, 'm, 'q) server_env \<Rightarrow> ('c \<Rightarrow> server_message list) \<Rightarrow> ('p, 'c, 'o, 'm, 'q) servers
       \<Rightarrow> (op_node_id \<times> 'm server_event) list \<Rightarrow> nat \<Rightarrow> command \<Rightarrow> string option option option" where
  "server_result E sent c0 evs t c = Option.bind (server_answer E sent c0 evs t c) response_result"

text \<open>
  A request is due when its coordinator has handled a consensus message and survived it, with the
  request decided and its client connected: by then the client must have its answer.
\<close>

definition server_due ::
    "('p, 'c, 'o, 's, 'm, 'q) server_env \<Rightarrow> ('o \<Rightarrow> command list) \<Rightarrow> ('p, 'c, 'o, 'm, 'q) servers
       \<Rightarrow> (op_node_id \<times> 'm server_event) list \<Rightarrow> command \<Rightarrow> bool" where
  "server_due E decided c0 evs c \<longleftrightarrow>
     (\<exists>t<length evs. \<exists>ms src m n.
        evs ! t = (cmd_coordinator_id c, ClusterBatch ms) \<and> (src, OmniPaxosMessage m) \<in> set ms \<and>
        cmd_coordinator_id c \<notin> set (cl_crashed (cluster_at (server_turn E) c0 evs (Suc t))) \<and>
        cl_nodes (cluster_at (server_turn E) c0 evs (Suc t)) (cmd_coordinator_id c) = Some n \<and>
        c \<in> set (decided (sv_omnipaxos (snd n))) \<and>
        client_channel (sv_network (snd n)) (cmd_client_id c) \<noteq> None)"

text \<open>The channels of a fresh cluster have taken nothing.\<close>

definition unused_channels :: "('c \<Rightarrow> server_message list) \<Rightarrow> ('p, 'c, 'o, 'm, 'q) servers \<Rightarrow> bool" where
  "unused_channels sent c0 \<longleftrightarrow>
     (\<forall>i n k ch. cl_nodes c0 i = Some n \<longrightarrow> client_channel (sv_network (snd n)) k = Some ch \<longrightarrow> sent ch = [])"

section \<open>What a server answers\<close>

definition response :: "command \<Rightarrow> string option option \<Rightarrow> server_message" where
  "response c r = (case r of Some v \<Rightarrow> ReadResp (cmd_id c) v | None \<Rightarrow> WriteResp (cmd_id c))"

fun is_response :: "server_message \<Rightarrow> bool" where
  "is_response (StartSignal _) = False"
| "is_response _ = True"

lemma is_response_response [simp]: "is_response (response c r)"
  by (cases r) (simp_all add: response_def)

lemma response_id_response [simp]:
  "response_id (response c r) = Some (cmd_id c)" "response_result (response c r) = Some r"
  by (cases r; simp add: response_def)+

lemma is_response_id: "response_id m = Some i \<Longrightarrow> is_response m"
  by (cases m) simp_all

lemma exec_log_state: "db (exec database_new (kv_cmds log)) = log_state db_spec kv_cmd Map.empty log"
  by (induction log rule: rev_induct) (simp_all add: log_state_def database_new_def handle_command_simps)

lemma server_spec_answer:
  "snd (server_spec i (exec database_new (kv_cmds log)) c) =
     (if cmd_coordinator_id c = i
      then [(cmd_client_id c, response c (entry_result (log @ [c]) (length log)))] else [])"
  by (simp add: server_spec_def case_prod_beta Let_def response_def result_at_def handle_command_simps exec_log_state)

text \<open>The answers of a server to a log, by position.\<close>

lemma run_log_responses:
  "snd (run_log (server_spec i) database_new log) =
     map (\<lambda>p. (cmd_client_id (log ! p), response (log ! p) (entry_result log p)))
       (filter (\<lambda>p. cmd_coordinator_id (log ! p) = i) [0..<length log])"
proof (induction log rule: rev_induct)
  case Nil
  then show ?case by simp
next
  case (snoc c log)
  have "map (\<lambda>p. (cmd_client_id ((log @ [c]) ! p), response ((log @ [c]) ! p) (entry_result (log @ [c]) p)))
          (filter (\<lambda>p. cmd_coordinator_id ((log @ [c]) ! p) = i) [0..<length log]) =
        map (\<lambda>p. (cmd_client_id (log ! p), response (log ! p) (entry_result log p)))
          (filter (\<lambda>p. cmd_coordinator_id (log ! p) = i) [0..<length log])"
    by (auto simp: nth_append result_at_append intro!: map_cong filter_cong)
  with snoc show ?case by (simp add: fold_laws run_log_exec server_spec_answer)
qed


section \<open>What a step keeps\<close>

text \<open>
  The channel of each client has taken the answers to the entries the server has applied, with start
  signals between them; \<open>ch\<close> gives the channels at the start.
\<close>

definition told ::
    "('c \<Rightarrow> server_message \<Rightarrow> 'c option) \<Rightarrow> (u64 \<Rightarrow> 'c option) \<Rightarrow> ('p, 'c) server_network
       \<Rightarrow> (u64 \<times> server_message) list \<Rightarrow> bool" where
  "told chan ch net rs \<longleftrightarrow>
     (\<forall>k. \<exists>ms. client_channel net k = feed chan (ch k) ms \<and>
            filter is_response ms = map snd (filter (\<lambda>(j, m). j = k) rs))"

lemma told_start: "told chan (client_channel net) net []"
  unfolding told_def by (metis feed.simps(1) filter.simps(1) list.simps(8))

lemma told_more:
  assumes "told chan ch net rs" "\<forall>(j, m)\<in>set rs'. is_response m"
    and "\<forall>k. client_channel net' k =
           feed chan (client_channel net k) (map snd (filter (\<lambda>(j, m). j = k) rs'))"
  shows "told chan ch net' (rs @ rs')"
  unfolding told_def
proof
  fix k
  obtain ms where ms: "client_channel net k = feed chan (ch k) ms"
    "filter is_response ms = map snd (filter (\<lambda>(j, m). j = k) rs)"
    using assms(1) unfolding told_def by blast
  let ?ms' = "map snd (filter (\<lambda>(j, m). j = k) rs')"
  have "filter is_response ?ms' = ?ms'" using assms(2) by (auto simp: filter_id_conv)
  with ms assms(3) show "\<exists>ms. client_channel net' k = feed chan (ch k) ms \<and>
      filter is_response ms = map snd (filter (\<lambda>(j, m). j = k) (rs @ rs'))"
    by (intro exI [of _ "ms @ ?ms'"]) (simp add: feed_append)
qed

lemma told_signals:
  assumes "told chan ch net rs" "\<forall>(j, m)\<in>set rs'. \<not> is_response m"
    and "\<forall>k. client_channel net' k =
           feed chan (client_channel net k) (map snd (filter (\<lambda>(j, m). j = k) rs'))"
  shows "told chan ch net' rs"
  unfolding told_def
proof
  fix k
  obtain ms where ms: "client_channel net k = feed chan (ch k) ms"
    "filter is_response ms = map snd (filter (\<lambda>(j, m). j = k) rs)"
    using assms(1) unfolding told_def by blast
  let ?ms' = "map snd (filter (\<lambda>(j, m). j = k) rs')"
  have "filter is_response ?ms' = []" using assms(2) by (auto simp: filter_empty_conv)
  with ms assms(3) show "\<exists>ms. client_channel net' k = feed chan (ch k) ms \<and>
      filter is_response ms = map snd (filter (\<lambda>(j, m). j = k) rs)"
    by (intro exI [of _ "ms @ ?ms'"]) (simp add: feed_append)
qed

lemma told_same: "told chan ch net rs \<Longrightarrow> client_connections net' = client_connections net \<Longrightarrow> told chan ch net' rs"
  by (simp add: told_def client_channel_def)

lemma answers_are_responses: "(j, m) \<in> set (snd (run_log (server_spec i) d log)) \<Longrightarrow> is_response m"
  by (induction log arbitrary: d)
    (auto simp: run_log_Cons server_spec_def case_prod_beta Let_def simp del: run_log.simps(2)
      split: if_splits option.splits)

section \<open>Proposals\<close>

text \<open>A step that keeps the server's id and proposes nothing but the commands in \<open>A\<close>.\<close>

definition keeps ::
    "('o \<Rightarrow> command set) \<Rightarrow> command set \<Rightarrow> ('p, 'c, 'o, 'm, 'q) omnipaxos_server
       \<Rightarrow> ('p, 'c, 'o, 'm, 'q) omnipaxos_server \<Rightarrow> bool" where
  "keeps proposed A s s' \<longleftrightarrow>
     sv_id s' = sv_id s \<and> proposed (sv_omnipaxos s') \<subseteq> proposed (sv_omnipaxos s) \<union> A"

lemma keeps_self [simp]: "keeps proposed A s s"
  by (simp add: keeps_def)

lemma keeps_trans: "keeps proposed A s u \<Longrightarrow> keeps proposed A u s' \<Longrightarrow> keeps proposed A s s'"
  by (auto simp: keeps_def)

lemma keeps_mono: "keeps proposed A s s' \<Longrightarrow> A \<subseteq> B \<Longrightarrow> keeps proposed B s s'"
  by (auto simp: keeps_def)

lemma keeps_network: "sv_omnipaxos s' = sv_omnipaxos s \<Longrightarrow> sv_id s' = sv_id s \<Longrightarrow> keeps proposed A s s'"
  by (simp add: keeps_def)

lemma to_cluster_all_keeps:
  assumes "fold_res (to_cluster E) s tms = Inr s'"
  shows "keeps proposed A s s'"
  by (rule fold_res_invariant [OF assms])
    (auto simp: to_cluster_def bind_res_eq_Inr keeps_def)

lemma handle_decided_keeps: "handle_decided_entries E s = Inr s' \<Longrightarrow> keeps proposed A s s'"
  by (auto simp: handle_decided_entries_def update_database_spec bind_res_eq_Inr Let_def
      intro: keeps_network split: if_splits)

lemma start_signals_keeps: "keeps proposed A s (send_client_start_signals E s t)"
  by (simp add: start_signals_net keeps_network)

context server_libs
begin

lemma send_outgoing_keeps:
  assumes "send_outgoing_msgs E s = Inr s'"
  shows "keeps proposed A s s'"
proof -
  let ?t = "op_take_outgoing_messages (se_paxos E) (sv_omnipaxos s)"
  let ?s = "s\<lparr>sv_omnipaxos := snd ?t, omnipaxos_msg_buffer := []\<rparr>"
  have "keeps proposed A s ?s" by (simp add: keeps_def P.take_proposed)
  moreover have "keeps proposed A ?s s'"
    using assms by (auto simp: send_outgoing_msgs_def case_prod_beta Let_def intro: to_cluster_all_keeps)
  ultimately show ?thesis by (rule keeps_trans)
qed

lemma cluster_message_keeps:
  assumes "handle_cluster_message E st fm = Inr st'"
  shows "keeps proposed A (snd st) (snd st')"
proof (cases "snd fm")
  case (OmniPaxosMessage m)
  let ?s = "(snd st)\<lparr>sv_omnipaxos := op_handle_incoming (se_paxos E) m (sv_omnipaxos (snd st))\<rparr>"
  have "keeps proposed A (snd st) ?s" by (simp add: keeps_def P.incoming_proposed)
  moreover have "keeps proposed A ?s (snd st')"
    using assms OmniPaxosMessage
    by (auto simp: handle_cluster_message_def bind_res_eq_Inr Let_def case_prod_beta intro: handle_decided_keeps)
  ultimately show ?thesis by (rule keeps_trans)
next
  case (LeaderStartSignal t)
  with assms show ?thesis
    by (auto simp: handle_cluster_message_def Let_def case_prod_beta start_signals_keeps)
qed

lemma cluster_messages_keeps:
  assumes "handle_cluster_messages E s ms = Inr (b, s')"
  shows "keeps proposed A s s'"
proof -
  obtain b' u where u: "fold_res (handle_cluster_message E) (False, s) ms = Inr (b', u)"
    "send_outgoing_msgs E u = Inr s'"
    using assms by (auto simp: handle_cluster_messages_def bind_res_eq_Inr)
  have "keeps proposed A s (snd (b', u))"
    by (rule fold_res_invariant [OF u(1)]) (auto intro: keeps_trans cluster_message_keeps)
  with send_outgoing_keeps [OF u(2)] show ?thesis by (auto intro: keeps_trans)
qed

lemma client_messages_keeps:
  assumes "handle_client_messages E s ms = Inr s'"
  shows "keeps proposed (set (batch_commands (sv_id s) ms)) s s'"
proof -
  let ?A = "set (batch_commands (sv_id s) ms)"
  let ?app = "\<lambda>s (client, msg). case msg of Append i c \<Rightarrow> append_to_log E s client i c"
  obtain u where u: "fold_res ?app s ms = Inr u" "send_outgoing_msgs E u = Inr s'"
    using assms by (auto simp: handle_client_messages_def bind_res_eq_Inr)
  have "keeps proposed ?A s u"
  proof (rule fold_res_invariant [OF u(1)])
    fix v x v'
    assume x: "x \<in> set ms" and v: "keeps proposed ?A s v" and step: "?app v x = Inr v'"
    obtain client i c where xeq: "x = (client, Append i c)" by (metis client_message.exhaust surj_pair)
    let ?c = "\<lparr>cmd_client_id = client, cmd_coordinator_id = sv_id v, cmd_id = i, kv_cmd = c\<rparr>"
    have "?c \<in> ?A" using x xeq v by (force simp: keeps_def batch_commands_def)
    with step v P.append_proposed [of ?c "sv_omnipaxos v"] show "keeps proposed ?A s v'"
      by (auto simp: xeq append_to_log_def keeps_def case_prod_beta Let_def split: if_splits)
  qed simp
  with send_outgoing_keeps [OF u(2)] show ?thesis by (auto intro: keeps_trans)
qed

lemma tick_keeps:
  assumes "server_step E s ElectionTick = Inr s'"
  shows "keeps proposed A s s'"
proof -
  have "keeps proposed A s (s\<lparr>sv_omnipaxos := op_tick (se_paxos E) (sv_omnipaxos s)\<rparr>)"
    by (simp add: keeps_def P.tick_proposed)
  with assms send_outgoing_keeps show ?thesis by (auto intro: keeps_trans)
qed

lemma leader_tick_keeps:
  assumes "leader_tick E s t = Inr (b, s')"
  shows "keeps proposed A s s'"
proof -
  have lead: "keeps proposed A s (s\<lparr>sv_omnipaxos := op_try_become_leader (se_paxos E) (sv_omnipaxos s)\<rparr>)"
    by (simp add: keeps_def P.lead_proposed)
  have signal: "keeps proposed A s u" if "send_cluster_start_signals E s t' = Inr u" for t' u
    using that unfolding send_cluster_start_signals_def by (rule to_cluster_all_keeps)
  show ?thesis
  proof (cases "case op_get_current_leader (se_paxos E) (sv_omnipaxos s) of
      Some (curr_leader, is_accept_phase) \<Rightarrow> curr_leader = sv_id s \<and> is_accept_phase | None \<Rightarrow> False")
    case True
    with assms obtain u where "send_cluster_start_signals E s (t + 2000) = Inr u"
      "s' = send_client_start_signals E u (t + 2000)"
      by (auto simp: leader_tick_def Let_def bind_res_eq_Inr)
    with keeps_trans [OF signal start_signals_keeps] show ?thesis by auto
  next
    case False
    with assms lead send_outgoing_keeps show ?thesis
      by (auto simp: leader_tick_def Let_def bind_res_eq_Inr intro: keeps_trans)
  qed
qed

lemma turn_keeps:
  assumes "server_turn E n ev = Inr n'"
  shows "keeps proposed (set (asked_commands (sv_id (snd n)) ev)) (snd n) (snd n')"
proof (cases n)
  case (Pair running s)
  with assms show ?thesis
    by (cases running; cases ev)
      (auto simp: bind_res_eq_Inr client_messages_keeps split: if_splits
        simp del: server_step.simps(1) intro: cluster_messages_keeps [of _ _ "fst n'"]
          cluster_messages_keeps leader_tick_keeps [of _ _ "fst n'"] tick_keeps)
qed

end

section \<open>The invariant of a server's life\<close>

definition answers_so_far ::
    "('o \<Rightarrow> command list) \<Rightarrow> ('p, 'c, 'o, 'm, 'q) omnipaxos_server \<Rightarrow> (u64 \<times> server_message) list" where
  "answers_so_far decided s =
     snd (run_log (server_spec (sv_id s)) database_new
            (take (current_decided_idx s) (decided (sv_omnipaxos s))))"

definition life_inv ::
    "('o \<Rightarrow> command list) \<Rightarrow> ('c \<Rightarrow> server_message \<Rightarrow> 'c option) \<Rightarrow> (u64 \<Rightarrow> 'c option) \<Rightarrow> op_node_id
       \<Rightarrow> ('p, 'c, 'o, 'm, 'q) omnipaxos_server \<Rightarrow> bool" where
  "life_inv decided chan ch i s \<longleftrightarrow>
     server_inv decided s \<and> sv_id s = i \<and> told chan ch (sv_network s) (answers_so_far decided s)"

lemma life_idle:
  assumes "life_inv decided chan ch i s" "idle decided s s'"
    and "client_connections (sv_network s') = client_connections (sv_network s)"
  shows "life_inv decided chan ch i s'"
proof -
  have "server_inv decided s'" using assms by (auto simp: life_inv_def intro: server_inv_idle)
  moreover have "answers_so_far decided s' = answers_so_far decided s"
    using assms(1,2) by (auto simp: life_inv_def server_inv_def idle_def answers_so_far_def dest: prefix_take_eq)
  ultimately show ?thesis using assms by (auto simp: life_inv_def idle_def intro: told_same)
qed

context server_libs
begin

abbreviation "alive ch \<equiv> life_inv decided (client_chan (se_chan E)) ch"

lemma alive_inv: "alive ch i s \<Longrightarrow> server_inv decided s"
  by (simp add: life_inv_def)

lemma alive_net: "alive ch i s \<Longrightarrow> net_inv (sv_network s)"
  by (simp add: life_inv_def server_inv_def)

lemma life_outgoing: "alive ch i s \<Longrightarrow> send_outgoing_msgs E s = Inr s' \<Longrightarrow> alive ch i s'"
  using send_outgoing_ok [OF alive_net] life_idle by fastforce

lemma life_decided:
  assumes "alive ch i s" "handle_decided_entries E s = Inr s'"
  shows "alive ch i s'"
proof -
  let ?log = "decided (sv_omnipaxos s)"
  let ?new = "snd (run_log (server_spec i) (sv_database s) (drop (current_decided_idx s) ?log))"
  have s: "server_inv decided s" "sv_id s = i" using assms(1) by (simp_all add: life_inv_def)
  from handle_decided_ok [OF s(1)] assms(2) s(2) have s': "server_inv decided s'" "sv_id s' = i"
    "sv_omnipaxos s' = sv_omnipaxos s" "current_decided_idx s' = length ?log"
    "\<forall>k. client_channel (sv_network s') k =
       feed (client_chan (se_chan E)) (client_channel (sv_network s) k)
         (map snd (filter (\<lambda>(j, m). j = k) ?new))" by auto
  have "answers_so_far decided s' = snd (run_log (server_spec i) database_new
      (take (current_decided_idx s) ?log @ drop (current_decided_idx s) ?log))"
    using s' by (simp add: answers_so_far_def)
  also have "\<dots> = answers_so_far decided s @ ?new"
    using s by (simp add: snd_run_log_append run_log_exec answers_so_far_def server_inv_def
        del: append_take_drop_id)
  finally have "answers_so_far decided s' = answers_so_far decided s @ ?new" .
  with assms(1) s' answers_are_responses show ?thesis by (auto simp: life_inv_def intro: told_more)
qed

lemma life_signals:
  assumes "alive ch i s"
  shows "alive ch i (send_client_start_signals E s t)"
proof -
  let ?rs = "map (\<lambda>i. (of_nat i, StartSignal t))
      [1..<unat (of_nat (num_clients (cfg_local (sv_config s))) + 1 :: u64)]"
  have s: "server_inv decided s" "net_inv (sv_network s)"
    using assms by (simp_all add: life_inv_def server_inv_def)
  have "\<forall>k. client_channel (sv_network (send_client_start_signals E s t)) k =
      feed (client_chan (se_chan E)) (client_channel (sv_network s) k)
        (map snd (filter (\<lambda>(j, m). j = k) ?rs))"
    using respond_all_channels [OF s(2), of "se_chan E" ?rs] by (simp add: start_signals_net)
  moreover have "\<forall>(j, m)\<in>set ?rs. \<not> is_response m" by auto
  ultimately have "told (client_chan (se_chan E)) ch (sv_network (send_client_start_signals E s t))
      (answers_so_far decided s)"
    using assms told_signals unfolding life_inv_def by blast
  moreover have "answers_so_far decided (send_client_start_signals E s t) = answers_so_far decided s"
    by (simp add: start_signals_net answers_so_far_def)
  ultimately show ?thesis using assms start_signals_ok [OF s(1)] by (simp add: life_inv_def)
qed

lemma life_cluster_message:
  assumes "alive ch i (snd st)" "handle_cluster_message E st fm = Inr st'"
  shows "alive ch i (snd st')"
proof (cases "snd fm")
  case (OmniPaxosMessage m)
  let ?s = "(snd st)\<lparr>sv_omnipaxos := op_handle_incoming (se_paxos E) m (sv_omnipaxos (snd st))\<rparr>"
  have "idle decided (snd st) ?s"
    using assms(1) by (simp add: idle_def life_inv_def server_inv_def P.incoming_decided)
  from life_idle [OF assms(1) this] have "alive ch i ?s" by simp
  with assms(2) OmniPaxosMessage show ?thesis
    by (auto simp: handle_cluster_message_def bind_res_eq_Inr Let_def case_prod_beta intro: life_decided)
next
  case (LeaderStartSignal t)
  with assms show ?thesis by (auto simp: handle_cluster_message_def Let_def case_prod_beta life_signals)
qed

lemma life_cluster_messages:
  assumes "alive ch i s" "handle_cluster_messages E s ms = Inr n'"
  shows "alive ch i (snd n')"
proof -
  obtain b u where u: "fold_res (handle_cluster_message E) (False, s) ms = Inr (b, u)"
    "send_outgoing_msgs E u = Inr (snd n')"
    using assms(2) by (auto simp: handle_cluster_messages_def bind_res_eq_Inr)
  have "alive ch i (snd (b, u))"
    by (rule fold_res_invariant [OF u(1)]) (auto intro: life_cluster_message simp: assms(1))
  with life_outgoing u(2) show ?thesis by simp
qed

text \<open>Once a consensus message is handled nothing that is decided is left unapplied.\<close>

lemma cluster_message_catches_up:
  assumes "server_inv decided (snd st)" "handle_cluster_message E st fm = Inr st'"
    and "(\<exists>m. snd fm = OmniPaxosMessage m) \<or>
         current_decided_idx (snd st) = length (decided (sv_omnipaxos (snd st)))"
  shows "server_inv decided (snd st') \<and>
         current_decided_idx (snd st') = length (decided (sv_omnipaxos (snd st')))"
proof (cases "snd fm")
  case (OmniPaxosMessage m)
  let ?s = "(snd st)\<lparr>sv_omnipaxos := op_handle_incoming (se_paxos E) m (sv_omnipaxos (snd st))\<rparr>"
  have "idle decided (snd st) ?s" using assms(1) by (simp add: idle_def server_inv_def P.incoming_decided)
  with assms(1) have "server_inv decided ?s" by (rule server_inv_idle)
  from handle_decided_ok [OF this] assms(2) OmniPaxosMessage show ?thesis
    by (auto simp: handle_cluster_message_def case_prod_beta)
next
  case (LeaderStartSignal t)
  with assms start_signals_ok [OF assms(1)] show ?thesis
    by (auto simp: handle_cluster_message_def case_prod_beta start_signals_net)
qed

lemma cluster_messages_catch_up:
  assumes "server_inv decided s" "handle_cluster_messages E s ms = Inr n'" "(src, OmniPaxosMessage m) \<in> set ms"
  shows "current_decided_idx (snd n') = length (decided (sv_omnipaxos (snd n')))"
proof -
  have fold: "current_decided_idx (snd st') = length (decided (sv_omnipaxos (snd st'))) \<and> net_inv (sv_network (snd st'))"
    if "fold_res (handle_cluster_message E) st ms = Inr st'" "server_inv decided (snd st)"
      "(\<exists>src m. (src, OmniPaxosMessage m) \<in> set ms) \<or>
       current_decided_idx (snd st) = length (decided (sv_omnipaxos (snd st)))" for st st' ms
    using that
  proof (induction ms arbitrary: st)
    case (Cons fm ms)
    then obtain u where u: "handle_cluster_message E st fm = Inr u"
      "fold_res (handle_cluster_message E) u ms = Inr st'" by (auto split: sum.splits)
    from cluster_message_ok [OF Cons.prems(2), of "fst st" fm] u(1) have inv: "server_inv decided (snd u)" by auto
    show ?case
    proof (cases "\<exists>src m. (src, OmniPaxosMessage m) \<in> set ms")
      case True
      with Cons.IH [OF u(2) inv] show ?thesis by blast
    next
      case False
      with Cons.prems(3) have "(\<exists>m. snd fm = OmniPaxosMessage m) \<or>
          current_decided_idx (snd st) = length (decided (sv_omnipaxos (snd st)))" by (cases fm) auto
      from cluster_message_catches_up [OF Cons.prems(2) u(1) this] Cons.IH [OF u(2) inv] show ?thesis by blast
    qed
  qed (simp add: server_inv_def)
  obtain st where st: "fold_res (handle_cluster_message E) (False, s) ms = Inr st"
    "send_outgoing_msgs E (snd st) = Inr (snd n')"
    using assms(2) by (auto simp: handle_cluster_messages_def bind_res_eq_Inr)
  from fold [OF st(1)] assms(1,3) have at: "current_decided_idx (snd st) = length (decided (sv_omnipaxos (snd st)))"
    "net_inv (sv_network (snd st))" by auto
  let ?t = "op_take_outgoing_messages (se_paxos E) (sv_omnipaxos (snd st))"
  let ?s = "(snd st)\<lparr>sv_omnipaxos := snd ?t, omnipaxos_msg_buffer := []\<rparr>"
  obtain tms where "fold_res (to_cluster E) ?s tms = Inr (snd n')"
    using st(2) unfolding send_outgoing_msgs_def case_prod_beta Let_def by blast
  with to_cluster_all_ok [of ?s E tms] at(2) obtain net where "snd n' = ?s\<lparr>sv_network := net\<rparr>" by auto
  with at(1) show ?thesis by (simp add: P.take_decided)
qed

lemma turn_catches_up:
  assumes "server_inv decided (snd n)" "server_turn E n (ClusterBatch ms) = Inr n'"
    and "(src, OmniPaxosMessage m) \<in> set ms"
  shows "current_decided_idx (snd n') = length (decided (sv_omnipaxos (snd n')))"
proof (cases n)
  case (Pair running s)
  from Pair assms(2) obtain st where "handle_cluster_messages E s ms = Inr st" "snd n' = snd st"
    by (cases running) (auto simp: bind_res_eq_Inr)
  with cluster_messages_catch_up [of s ms st] Pair assms(1,3) show ?thesis by simp
qed

lemma life_leader_tick:
  assumes "alive ch i s" "leader_tick E s t = Inr n'"
  shows "alive ch i (snd n')"
proof (cases "case op_get_current_leader (se_paxos E) (sv_omnipaxos s) of
    Some (curr_leader, is_accept_phase) \<Rightarrow> curr_leader = sv_id s \<and> is_accept_phase | None \<Rightarrow> False")
  case True
  with assms(2) obtain u where u: "send_cluster_start_signals E s (t + 2000) = Inr u"
    "snd n' = send_client_start_signals E u (t + 2000)"
    by (auto simp: leader_tick_def Let_def bind_res_eq_Inr)
  have inv: "server_inv decided s" using assms(1) by (rule alive_inv)
  obtain net where "u = s\<lparr>sv_network := net\<rparr>" "net_inv net"
    "client_connections net = client_connections (sv_network s)"
    using to_cluster_all_ok [OF alive_net [OF assms(1)]] u(1)
    unfolding send_cluster_start_signals_def by (metis sum.inject(2))
  with inv have "idle decided s u" "client_connections (sv_network u) = client_connections (sv_network s)"
    by (simp_all add: idle_def server_inv_def)
  from life_idle [OF assms(1) this] u(2) show ?thesis by (simp add: life_signals)
next
  case False
  let ?s = "s\<lparr>sv_omnipaxos := op_try_become_leader (se_paxos E) (sv_omnipaxos s)\<rparr>"
  have "idle decided s ?s"
    using assms(1) by (simp add: idle_def life_inv_def server_inv_def P.lead_decided)
  from life_idle [OF assms(1) this] have "alive ch i ?s" by simp
  with False assms(2) life_outgoing show ?thesis
    by (auto simp: leader_tick_def Let_def bind_res_eq_Inr)
qed

lemma life_client_messages: "alive ch i s \<Longrightarrow> handle_client_messages E s ms = Inr s' \<Longrightarrow> alive ch i s'"
  using client_messages_idle [OF _ alive_inv] life_idle by blast

lemma life_tick: "alive ch i s \<Longrightarrow> server_step E s ElectionTick = Inr s' \<Longrightarrow> alive ch i s'"
  using tick_idle [OF alive_inv] life_idle by fastforce

lemmas life_steps = life_cluster_messages life_leader_tick life_client_messages life_tick

lemma life_turn:
  assumes "alive ch i (snd n)" "server_turn E n ev = Inr n'"
  shows "alive ch i (snd n')"
proof (cases n)
  case (Pair running s)
  with assms show ?thesis
    by (cases running; cases ev)
      (auto simp: bind_res_eq_Inr simp del: server_step.simps(1) split: if_splits dest: life_steps)
qed

lemma life_start:
  assumes "server_new E cfg net = Inr s" "net_inv net"
  shows "alive (client_channel net) (sv_id s) s"
proof -
  have "server_inv decided s" using assms by (rule server_new_inv)
  moreover have "sv_network s = net" "answers_so_far decided s = []"
    using assms(1) by (auto simp: server_new_def bind_res_eq_Inr answers_so_far_def)
  ultimately show ?thesis by (simp add: life_inv_def told_start)
qed

end

section \<open>What consensus promises of a run\<close>

lemma server_new_fields:
  "server_new E cfg net = Inr s \<Longrightarrow>
     sv_network s = net \<and> op_build (se_paxos E) (config_into cfg) = Some (sv_omnipaxos s)"
  by (auto simp: server_new_def bind_res_eq_Inr)

locale server_consensus_run = server_libs E decided proposed
  for E :: "('p, 'c, 'o, 's, 'm, 'q) server_env"
    and decided :: "'o \<Rightarrow> command list"
    and proposed :: "'o \<Rightarrow> command set" +
  fixes c0 :: "('p, 'c, 'o, 'm, 'q) servers"
    and evs :: "(op_node_id \<times> 'm server_event) list"
    and L :: "command list"
  assumes fresh: "fresh_servers E c0"
    and agreement: "t \<le> length evs \<Longrightarrow> cl_nodes (cluster_at (server_turn E) c0 evs t) i = Some n \<Longrightarrow>
          prefix (decided (sv_omnipaxos (snd n))) L"
    and validity: "t \<le> length evs \<Longrightarrow> cl_nodes (cluster_at (server_turn E) c0 evs t) i = Some n \<Longrightarrow>
          c \<in> set (decided (sv_omnipaxos (snd n))) \<Longrightarrow>
          \<exists>j m. cl_nodes (cluster_at (server_turn E) c0 evs t) j = Some m \<and>
                c \<in> proposed (sv_omnipaxos (snd m))"
begin

lemma fresh_server:
  assumes "cl_nodes c0 i = Some n"
  obtains cfg net where "net_inv net" "server_new E cfg net = Inr (snd n)" "sv_id (snd n) = i"
  using fresh assms unfolding fresh_servers_def by blast

text \<open>Every server, at every moment, keeps its invariant with the channels it started with.\<close>

lemma alive_at:
  assumes "t \<le> length evs" "cl_nodes (cluster_at (server_turn E) c0 evs t) i = Some n"
    and "cl_nodes c0 i = Some n0"
  shows "alive (client_channel (sv_network (snd n0))) i (snd n)"
proof -
  let ?P = "\<lambda>j n. j = i \<longrightarrow> alive (client_channel (sv_network (snd n0))) i (snd n)"
  have "?P i n"
  proof (rule cluster_invariant [OF _ _ assms(1,2), where P = ?P])
    show "?P j m" if m: "cl_nodes c0 j = Some m" for j m
    proof
      assume "j = i"
      with m assms(3) have "m = n0" by simp
      obtain cfg net where net: "net_inv net" "server_new E cfg net = Inr (snd n0)" "sv_id (snd n0) = i"
        using assms(3) by (rule fresh_server)
      then show "alive (client_channel (sv_network (snd n0))) i (snd m)"
        using life_start [OF net(2,1)] server_new_fields [OF net(2)] \<open>m = n0\<close> by simp
    qed
  qed (use life_turn in blast)
  then show ?thesis by simp
qed

text \<open>The servers of a run are those of its start.\<close>

lemma started:
  assumes "t \<le> length evs" "cl_nodes (cluster_at (server_turn E) c0 evs t) i = Some n"
  obtains n0 where "cl_nodes c0 i = Some n0"
  using cluster_invariant [OF _ _ assms, where P = "\<lambda>i n. \<exists>n0. cl_nodes c0 i = Some n0"] by blast

lemma server_inv_at:
  assumes "t \<le> length evs" "cl_nodes (cluster_at (server_turn E) c0 evs t) i = Some n"
  shows "server_inv decided (snd n) \<and> sv_id (snd n) = i"
  using started [OF assms] alive_at [OF assms] by (metis life_inv_def)

lemma applied_log:
  assumes "t \<le> length evs" "cl_nodes (cluster_at (server_turn E) c0 evs t) i = Some n"
  shows "current_decided_idx (snd n) \<le> length L"
    and "take (current_decided_idx (snd n)) (decided (sv_omnipaxos (snd n))) = take (current_decided_idx (snd n)) L"
  using server_inv_at [OF assms] agreement [OF assms] prefix_length_le [OF agreement [OF assms]]
  by (auto simp: server_inv_def intro: prefix_take_eq)

text \<open>Whatever is proposed anywhere was asked for by a client before.\<close>

lemma proposed_asked:
  assumes "t \<le> length evs" "cl_nodes (cluster_at (server_turn E) c0 evs t) i = Some n"
    and "c \<in> proposed (sv_omnipaxos (snd n))"
  shows "\<exists>s<t. asked_at evs s c"
proof (rule held_was_asked [where holds = "\<lambda>n. proposed (sv_omnipaxos (snd n))" and asks = "asked_at evs",
      OF _ _ assms])
  fix i n
  assume "cl_nodes c0 i = Some n"
  then obtain cfg net where "server_new E cfg net = Inr (snd n)" by (rule fresh_server)
  from server_new_fields [OF this] show "proposed (sv_omnipaxos (snd n)) = {}"
    by (elim conjE) (rule P.build_proposed)
next
  fix t i n ev n' c
  assume t: "t < length evs" and n: "cl_nodes (cluster_at (server_turn E) c0 evs t) i = Some n"
    and ev: "evs ! t = (i, ev)" and step: "server_turn E n ev = Inr n'"
    and c: "c \<in> proposed (sv_omnipaxos (snd n'))"
  from turn_keeps [OF step] c server_inv_at [OF less_imp_le [OF t] n]
  have "c \<in> proposed (sv_omnipaxos (snd n)) \<or> c \<in> set (asked_commands i ev)" by (auto simp: keeps_def)
  with n ev show "asked_at evs t c \<or> (\<exists>j m. cl_nodes (cluster_at (server_turn E) c0 evs t) j = Some m \<and>
      c \<in> proposed (sv_omnipaxos (snd m)))"
    unfolding asked_at_def server_requests_def by (metis fst_conv snd_conv)
qed

lemma decided_asked:
  assumes "t \<le> length evs" "cl_nodes (cluster_at (server_turn E) c0 evs t) i = Some n"
    and "c \<in> set (decided (sv_omnipaxos (snd n)))"
  shows "\<exists>s<t. asked_at evs s c"
  using validity [OF assms] proposed_asked [OF assms(1)] by blast

lemma applied_asked:
  assumes "t \<le> length evs" "cl_nodes (cluster_at (server_turn E) c0 evs t) i = Some n"
    and "p < current_decided_idx (snd n)"
  shows "\<exists>s<t. asked_at evs s (L ! p)"
proof -
  from assms(3) server_inv_at [OF assms(1,2)] have "p < length (decided (sv_omnipaxos (snd n)))"
    by (simp add: server_inv_def)
  then have "L ! p \<in> set (decided (sv_omnipaxos (snd n)))"
    using prefix_nth [OF agreement [OF assms(1,2)]] by (metis nth_mem)
  from decided_asked [OF assms(1,2) this] show ?thesis .
qed

text \<open>What the channel of a client has taken, by position of the log.\<close>

lemma told_at:
  assumes "t \<le> length evs" "cl_nodes (cluster_at (server_turn E) c0 evs t) i = Some n"
    and "cl_nodes c0 i = Some n0"
  shows "\<exists>ms. client_channel (sv_network (snd n)) k =
             feed (client_chan (se_chan E)) (client_channel (sv_network (snd n0)) k) ms \<and>
           filter is_response ms = map (\<lambda>p. response (L ! p) (entry_result L p))
             (filter (\<lambda>p. cmd_coordinator_id (L ! p) = i \<and> cmd_client_id (L ! p) = k)
               [0..<current_decided_idx (snd n)])"
proof -
  let ?i = "current_decided_idx (snd n)"
  note log = applied_log [OF assms(1,2)]
  have "answers_so_far decided (snd n) = snd (run_log (server_spec i) database_new (take ?i L))"
    using server_inv_at [OF assms(1,2)] log(2) by (simp add: answers_so_far_def)
  also have "\<dots> = map (\<lambda>p. (cmd_client_id (L ! p), response (L ! p) (entry_result L p)))
      (filter (\<lambda>p. cmd_coordinator_id (L ! p) = i) [0..<?i])"
    using log(1) unfolding run_log_responses
    by (auto simp: result_at_take min_def intro!: map_cong filter_cong)
  finally have answers: "map snd (filter (\<lambda>(j, m). j = k) (answers_so_far decided (snd n))) =
      map (\<lambda>p. response (L ! p) (entry_result L p))
        (filter (\<lambda>p. cmd_coordinator_id (L ! p) = i \<and> cmd_client_id (L ! p) = k) [0..<?i])"
    by (simp add: filter_map comp_def conj_commute)
  from alive_at [OF assms] have "told (client_chan (se_chan E)) (client_channel (sv_network (snd n0)))
      (sv_network (snd n)) (answers_so_far decided (snd n))" by (simp add: life_inv_def)
  from this [unfolded told_def, rule_format, of k] show ?thesis unfolding answers .
qed

end

text \<open>
  Clients number their requests, so that no two requests share server, client and number, no request is
  decided twice, and the channels of the clients keep what they take in order, which \<open>sent\<close> reads off.
\<close>

locale exactly_once_servers = server_consensus_run E decided proposed c0 evs L
  for E :: "('p, 'c, 'o, 's, 'm, 'q) server_env"
    and decided :: "'o \<Rightarrow> command list"
    and proposed :: "'o \<Rightarrow> command set"
    and c0 :: "('p, 'c, 'o, 'm, 'q) servers"
    and evs :: "(op_node_id \<times> 'm server_event) list"
    and L :: "command list" +
  fixes sent :: "'c \<Rightarrow> server_message list"
  assumes once: "distinct L"
    and numbered: "inj_on command_route (set (run_requests (server_requests evs) (length evs)))"
    and recorded: "records (client_chan (se_chan E)) sent" "unused_channels sent c0"
begin

text \<open>What has been put into the channel of a connected client.\<close>

lemma sent_at:
  assumes "t \<le> length evs" "cl_nodes (cluster_at (server_turn E) c0 evs t) i = Some n"
    and "client_channel (sv_network (snd n)) k = Some ch"
  shows "filter is_response (sent ch) = map (\<lambda>p. response (L ! p) (entry_result L p))
           (filter (\<lambda>p. cmd_coordinator_id (L ! p) = i \<and> cmd_client_id (L ! p) = k)
             [0..<current_decided_idx (snd n)])"
proof -
  obtain n0 where n0: "cl_nodes c0 i = Some n0" using started [OF assms(1,2)] .
  from told_at [OF assms(1,2) n0, of k] obtain ms where
    ms: "client_channel (sv_network (snd n)) k =
      feed (client_chan (se_chan E)) (client_channel (sv_network (snd n0)) k) ms"
    "filter is_response ms = map (\<lambda>p. response (L ! p) (entry_result L p))
      (filter (\<lambda>p. cmd_coordinator_id (L ! p) = i \<and> cmd_client_id (L ! p) = k)
        [0..<current_decided_idx (snd n)])" by blast
  obtain ch0 where ch0: "client_channel (sv_network (snd n0)) k = Some ch0"
    using ms(1) assms(3) by (cases "client_channel (sv_network (snd n0)) k") auto
  have "sent ch = sent ch0 @ ms"
    using feed_records [OF recorded(1)] ms(1) assms(3) ch0 by simp
  moreover have "sent ch0 = []" using recorded(2) n0 ch0 unfolding unused_channels_def by blast
  ultimately show ?thesis using ms(2) by simp
qed

lemma answer_of_request:
  assumes "t \<le> length evs" "c \<in> set (run_requests (server_requests evs) (length evs))"
    and "server_answer E sent c0 evs t c = Some m"
  obtains n p where "cl_nodes (cluster_at (server_turn E) c0 evs t) (cmd_coordinator_id c) = Some n"
    "p < current_decided_idx (snd n)" "p < length L" "L ! p = c" "m = response c (entry_result L p)"
proof -
  from assms(3) obtain n ch where
    n: "cl_nodes (cluster_at (server_turn E) c0 evs t) (cmd_coordinator_id c) = Some n"
    and ch: "client_channel (sv_network (snd n)) (cmd_client_id c) = Some ch"
    and f: "find (\<lambda>m. response_id m = Some (cmd_id c)) (sent ch) = Some m"
    by (auto simp: server_answer_def split: option.splits)
  from find_SomeD [OF f] have m: "m \<in> set (sent ch)" "response_id m = Some (cmd_id c)" by simp_all
  then have "m \<in> set (filter is_response (sent ch))" by (auto intro: is_response_id)
  then obtain p where p: "p < current_decided_idx (snd n)" "cmd_coordinator_id (L ! p) = cmd_coordinator_id c"
    "cmd_client_id (L ! p) = cmd_client_id c" "m = response (L ! p) (entry_result L p)"
    unfolding sent_at [OF assms(1) n ch] by auto
  from p m(2) have route: "command_route (L ! p) = command_route c" by (simp add: command_route_def)
  from applied_asked [OF assms(1) n p(1)] assms(1)
  have "L ! p \<in> set (run_requests (server_requests evs) (length evs))"
    unfolding in_run_requests asked_at_def by (meson less_le_trans)
  with inj_onD [OF numbered route] assms(2) have "L ! p = c" by blast
  with that n p applied_log(1) [OF assms(1) n] show thesis by simp
qed

text \<open>An entry its coordinator has applied is answered when the client is connected.\<close>

lemma applied_answered:
  assumes "t \<le> length evs" "cl_nodes (cluster_at (server_turn E) c0 evs t) (cmd_coordinator_id (L ! p)) = Some n"
    and "p < current_decided_idx (snd n)"
    and "client_channel (sv_network (snd n)) (cmd_client_id (L ! p)) \<noteq> None"
  shows "server_answer E sent c0 evs t (L ! p) \<noteq> None"
proof -
  from assms(4) obtain ch where ch: "client_channel (sv_network (snd n)) (cmd_client_id (L ! p)) = Some ch" by blast
  have "response (L ! p) (entry_result L p) \<in> set (filter is_response (sent ch))"
    unfolding sent_at [OF assms(1,2) ch] using assms(3) by auto
  then have "find (\<lambda>m. response_id m = Some (cmd_id (L ! p))) (sent ch) \<noteq> None"
    unfolding find_None_iff by (metis filter_is_subset in_mono response_id_response(1))
  with assms(2) ch show ?thesis by (simp add: server_answer_def)
qed

end

text \<open>Such a run is a run over a log, so what clients observe is linearizable.\<close>

sublocale exactly_once_servers \<subseteq> lr: log_run db_spec kv_cmd Map.empty L "server_requests evs"
    "server_result E sent c0 evs" "length evs"
proof (unfold_locales, rule once)
  fix t c r
  assume t: "t \<le> length evs" and c: "c \<in> set (run_requests (server_requests evs) (length evs))"
    and r: "server_result E sent c0 evs t c = Some r"
  from r obtain m where m: "server_answer E sent c0 evs t c = Some m" "response_result m = Some r"
    by (auto simp: server_result_def bind_eq_Some_conv)
  from answer_of_request [OF t c m(1)] obtain n p where
    n: "cl_nodes (cluster_at (server_turn E) c0 evs t) (cmd_coordinator_id c) = Some n"
      "p < current_decided_idx (snd n)"
    and p: "p < length L" "L ! p = c" "m = response c (entry_result L p)" .
  have "\<exists>s<t. L ! q \<in> set (server_requests evs s)" if "q \<le> p" for q
    using applied_asked [OF t n(1)] n(2) that unfolding asked_at_def by simp
  with m(2) p show "\<exists>p<length L. L ! p = c \<and> r = entry_result L p \<and>
      (\<forall>q\<le>p. \<exists>s<t. L ! q \<in> set (server_requests evs s))" by auto
qed

context exactly_once_servers
begin

lemma observed_linearizable:
  "linearizable_run db_spec kv_cmd Map.empty (server_requests evs) (server_result E sent c0 evs) (length evs)"
  by (rule lr.run_linearizable)

text \<open>Whatever is due has been answered.\<close>

lemma due_answered:
  assumes "server_due E decided c0 evs c"
  shows "outcome (server_result E sent c0 evs) (length evs) c \<noteq> None"
proof -
  from assms obtain t ms src m n' where t: "t < length evs" "evs ! t = (cmd_coordinator_id c, ClusterBatch ms)"
    and msg: "(src, OmniPaxosMessage m) \<in> set ms"
    and up: "cmd_coordinator_id c \<notin> set (cl_crashed (cluster_at (server_turn E) c0 evs (Suc t)))"
    and n': "cl_nodes (cluster_at (server_turn E) c0 evs (Suc t)) (cmd_coordinator_id c) = Some n'"
    and c: "c \<in> set (decided (sv_omnipaxos (snd n')))"
    and conn: "client_channel (sv_network (snd n')) (cmd_client_id c) \<noteq> None"
    unfolding server_due_def by blast
  obtain n where n: "cl_nodes (cluster_at (server_turn E) c0 evs t) (cmd_coordinator_id c) = Some n"
    "server_turn E n (ClusterBatch ms) = Inr n'"
    using survived_step [OF t up n'] .
  have le: "Suc t \<le> length evs" using t(1) by simp
  from server_inv_at [OF less_imp_le [OF t(1)] n(1)] have "server_inv decided (snd n)" by simp
  from turn_catches_up [OF this n(2) msg]
  have idx: "current_decided_idx (snd n') = length (decided (sv_omnipaxos (snd n')))" .
  from c obtain p where p: "p < current_decided_idx (snd n')" "decided (sv_omnipaxos (snd n')) ! p = c"
    unfolding idx by (auto simp: in_set_conv_nth)
  with prefix_nth [OF agreement [OF le n']] idx have L: "L ! p = c" by metis
  from applied_asked [OF le n' p(1)] le L have req: "c \<in> set (run_requests (server_requests evs) (length evs))"
    unfolding in_run_requests asked_at_def by (meson less_le_trans)
  from applied_answered [of "Suc t" p n'] le n' p(1) conn L obtain r where
    r: "server_answer E sent c0 evs (Suc t) c = Some r" by auto
  from answer_of_request [OF le req r] have "server_result E sent c0 evs (Suc t) c \<noteq> None"
    by (metis bind.bind_lunit r server_result_def option.discI response_id_response(2))
  then show ?thesis using outcome_of_answer [OF le] by (metis not_None_eq)
qed

end

end
