(* ===== verification/Server_Scenario.thy ===== *)
theory Server_Scenario
  imports Server_Cluster
begin

text \<open>
  A concrete cluster of two servers over the leader-based log of theory \<open>Omnipaxos_Interface\<close>: the
  leader is established, a client's write is appended at the leader, decided, applied at the other
  server and then at the leader, which answers.
\<close>

definition duo_config :: "op_node_id \<Rightarrow> unit kv_config" where
  "duo_config i =
     \<lparr>cfg_local = \<lparr>location = None, server_id = i, listen_address = ''a'', listen_port = 80,
        num_clients = 1, output_filepath = ''o''\<rparr>,
      cfg_cluster = \<lparr>nodes = [1, 2], node_addrs = [''a'', ''b''], initial_leader = 1,
        initial_flexible_quorum = None\<rparr>\<rparr>"

type_synonym duo_net =
  "(lone_msg cluster_message queue_channel, server_message queue_channel) server_network"

type_synonym duo_server =
  "(lone_msg cluster_message queue_channel, server_message queue_channel, command leader_log, lone_msg,
    unit) omnipaxos_server"

text \<open>Connected to the peer \<open>p\<close>, with what was sent to it and to the client.\<close>

definition duo_net :: "op_node_id \<Rightarrow> lone_msg cluster_message list \<Rightarrow> server_message list \<Rightarrow> duo_net" where
  "duo_net p ps ms =
     \<lparr>net_peers = [p],
      peer_connections = [Some \<lparr>conn_id = p, conn_out = \<lparr>qc_open = True, qc_sent = ps\<rparr>\<rparr>],
      client_connections = lone_client ms, max_client_id = 1, batch_size = 100\<rparr>"

definition duo_server ::
    "op_node_id \<Rightarrow> op_node_id \<Rightarrow> command list \<Rightarrow> command list \<Rightarrow> nat
       \<Rightarrow> lone_msg cluster_message list \<Rightarrow> server_message list \<Rightarrow> duo_server" where
  "duo_server i p lg pr idx ps ms =
     \<lparr>sv_id = i, sv_database = exec database_new (map kv_cmd (take idx lg)), sv_network = duo_net p ps ms,
      sv_omnipaxos = \<lparr>ll_pid = i, ll_nodes = [1, 2], ll_log = lg, ll_proposed = pr, ll_out = []\<rparr>,
      current_decided_idx = idx, omnipaxos_msg_buffer = [], sv_config = duo_config i, sv_peers = [p]\<rparr>"

definition duo_a :: "nat \<Rightarrow> bool \<times> duo_server" where
  "duo_a t =
     [(False, duo_server 1 2 [] [] 0 [] []),
      (True, duo_server 1 2 [] [] 0 [LeaderStartSignal 2005] [StartSignal 2005]),
      (True, duo_server 1 2 [lone_put] [lone_put] 0
         [LeaderStartSignal 2005, OmniPaxosMessage (2, [lone_put])] [StartSignal 2005]),
      (True, duo_server 1 2 [lone_put] [lone_put] 1
         [LeaderStartSignal 2005, OmniPaxosMessage (2, [lone_put])] [StartSignal 2005, WriteResp 0])] ! t"

definition duo_b :: "nat \<Rightarrow> bool \<times> duo_server" where
  "duo_b t =
     [(False, duo_server 2 1 [] [] 0 [] []),
      (True, duo_server 2 1 [] [] 0 [] [StartSignal 2005]),
      (True, duo_server 2 1 [lone_put] [] 1 [] [StartSignal 2005])] ! t"

definition duo_cluster :: "nat \<Rightarrow> nat \<Rightarrow>
    (lone_msg cluster_message queue_channel, server_message queue_channel, command leader_log, lone_msg,
     unit) servers" where
  "duo_cluster a b = \<lparr>cl_nodes = [1 \<mapsto> duo_a a, 2 \<mapsto> duo_b b], cl_crashed = []\<rparr>"

definition duo_events :: "(op_node_id \<times> lone_msg server_event) list" where
  "duo_events =
     [(1, LeaderTick 5), (2, ClusterBatch [(1, LeaderStartSignal 2005)]),
      (1, ClientBatch [(1, Append 0 (Put ''k'' ''v''))]),
      (2, ClusterBatch [(1, OmniPaxosMessage (2, [lone_put]))]),
      (1, ClusterBatch [(2, OmniPaxosMessage (1, [lone_put]))])]"

lemmas duo_unfold = duo_server_def duo_net_def duo_config_def lone_client_def lone_server_env_def
  leader_paxos_def queue_channels_def queue_send_def

lemma duo_step_0: "server_turn lone_server_env (duo_a 0) (LeaderTick 5) = Inr (duo_a 1)"
  by (simp add: duo_a_def duo_unfold leader_tick_def send_cluster_start_signals_def to_cluster_def
      send_client_start_signals_def send_to_client_def send_to_cluster_def cluster_id_to_idx_def Let_def upt_rec)

lemma duo_step_1:
  "server_turn lone_server_env (duo_b 0) (ClusterBatch [(1, LeaderStartSignal 2005)]) = Inr (duo_b 1)"
  by (simp add: duo_b_def duo_unfold handle_cluster_messages_def handle_cluster_message_def
      send_client_start_signals_def send_to_client_def send_outgoing_msgs_def Let_def upt_rec)

lemma duo_step_2:
  "server_turn lone_server_env (duo_a 1) (ClientBatch [(1, Append 0 (Put ''k'' ''v''))]) = Inr (duo_a 2)"
  by (simp add: duo_a_def duo_unfold handle_client_messages_def append_to_log_def send_outgoing_msgs_def
      ll_append_def lone_put_def to_cluster_def send_to_cluster_def cluster_id_to_idx_def Let_def)

lemma duo_step_3:
  "server_turn lone_server_env (duo_b 1) (ClusterBatch [(1, OmniPaxosMessage (2, [lone_put]))]) = Inr (duo_b 2)"
  by (simp add: duo_b_def duo_unfold handle_cluster_messages_def handle_cluster_message_def
      handle_decided_entries_def update_database_and_respond_def apply_command_def ll_handle_incoming_def
      send_outgoing_msgs_def lone_put_def database_new_def Let_def)

lemma duo_step_4:
  "server_turn lone_server_env (duo_a 2) (ClusterBatch [(2, OmniPaxosMessage (1, [lone_put]))]) = Inr (duo_a 3)"
  by (simp add: duo_a_def duo_unfold handle_cluster_messages_def handle_cluster_message_def
      handle_decided_entries_def update_database_and_respond_def apply_command_def ll_handle_incoming_def
      send_outgoing_msgs_def send_to_client_def lone_put_def database_new_def Let_def)

lemma duo_events_len [simp]: "length duo_events = 5"
  by (simp add: duo_events_def)

lemma duo_cluster_steps:
  "cluster_step (server_turn lone_server_env) (duo_cluster a b) (1, ev) = duo_cluster a' b"
  if "server_turn lone_server_env (duo_a a) ev = Inr (duo_a a')" for a b a' ev
  using that by (simp add: duo_cluster_def fun_upd_twist)

lemma duo_cluster_steps':
  "cluster_step (server_turn lone_server_env) (duo_cluster a b) (2, ev) = duo_cluster a b'"
  if "server_turn lone_server_env (duo_b b) ev = Inr (duo_b b')" for a b b' ev
  using that by (simp add: duo_cluster_def)

lemmas duo_moves =
  duo_cluster_steps [OF duo_step_0] duo_cluster_steps' [OF duo_step_1] duo_cluster_steps [OF duo_step_2]
  duo_cluster_steps' [OF duo_step_3] duo_cluster_steps [OF duo_step_4]

lemma duo_states:
  "cluster_at (server_turn lone_server_env) (duo_cluster 0 0) duo_events 0 = duo_cluster 0 0"
  "cluster_at (server_turn lone_server_env) (duo_cluster 0 0) duo_events 1 = duo_cluster 1 0"
  "cluster_at (server_turn lone_server_env) (duo_cluster 0 0) duo_events 2 = duo_cluster 1 1"
  "cluster_at (server_turn lone_server_env) (duo_cluster 0 0) duo_events 3 = duo_cluster 2 1"
  "cluster_at (server_turn lone_server_env) (duo_cluster 0 0) duo_events 4 = duo_cluster 2 2"
  "cluster_at (server_turn lone_server_env) (duo_cluster 0 0) duo_events 5 = duo_cluster 3 2"
  by (simp_all add: cluster_at_def duo_events_def duo_moves [unfolded One_nat_def] del: cluster_step.simps)

lemma duo_nodes:
  "cl_nodes (duo_cluster a b) i = Some n \<longleftrightarrow> (i = 1 \<and> n = duo_a a) \<or> (i = 2 \<and> n = duo_b b)"
  by (auto simp: duo_cluster_def)

lemma duo_time: "t \<le> length duo_events \<Longrightarrow> t = 0 \<or> t = 1 \<or> t = 2 \<or> t = 3 \<or> t = 4 \<or> t = 5"
  by auto

text \<open>The first server's log is everything proposed, and the second server's is a part of it.\<close>

lemma duo_at:
  assumes "t \<le> length duo_events"
  obtains a b where "cluster_at (server_turn lone_server_env) (duo_cluster 0 0) duo_events t = duo_cluster a b"
    "prefix (ll_log (sv_omnipaxos (snd (duo_a a)))) [lone_put]"
    "prefix (ll_log (sv_omnipaxos (snd (duo_b b)))) (ll_log (sv_omnipaxos (snd (duo_a a))))"
    "ll_proposed (sv_omnipaxos (snd (duo_a a))) = ll_log (sv_omnipaxos (snd (duo_a a)))"
proof -
  have logs: "map (\<lambda>a. ll_log (sv_omnipaxos (snd (duo_a a)))) [0, 1, 2, 3] = [[], [], [lone_put], [lone_put]]"
    "map (\<lambda>a. ll_proposed (sv_omnipaxos (snd (duo_a a)))) [0, 1, 2, 3] = [[], [], [lone_put], [lone_put]]"
    "map (\<lambda>b. ll_log (sv_omnipaxos (snd (duo_b b)))) [0, 1, 2] = [[], [], [lone_put]]"
    by (simp_all add: duo_a_def duo_b_def duo_server_def)
  from duo_time [OF assms] show thesis
    by (elim disjE) (use that duo_states logs in \<open>auto simp: One_nat_def [symmetric] simp del: One_nat_def\<close>)
qed

lemma duo_new:
  "server_new lone_server_env (duo_config 1) (duo_net 2 [] []) = Inr (snd (duo_a 0))"
  "server_new lone_server_env (duo_config 2) (duo_net 1 [] []) = Inr (snd (duo_b 0))"
  by (simp_all add: server_new_def duo_a_def duo_b_def duo_unfold config_into_def get_peers_def)

lemma duo_net_inv: "net_inv (duo_net p ps ms)"
  by (simp add: net_inv_def duo_net_def lone_client_def)

lemma duo_fresh: "fresh_servers lone_server_env (duo_cluster 0 0)"
proof -
  have "\<not> fst (duo_a 0)" "\<not> fst (duo_b 0)" "sv_id (snd (duo_a 0)) = 1" "sv_id (snd (duo_b 0)) = 2"
    by (simp_all add: duo_a_def duo_b_def duo_server_def)
  with duo_new duo_net_inv show ?thesis unfolding fresh_servers_def duo_nodes by metis
qed

interpretation duo: server_consensus_run lone_server_env ll_log "\<lambda>s. set (ll_proposed s)" "duo_cluster 0 0"
  duo_events "[lone_put]"
proof unfold_locales
  show "fresh_servers lone_server_env (duo_cluster 0 0)" by (rule duo_fresh)
next
  fix t i n
  assume t: "t \<le> length duo_events"
    and n: "cl_nodes (cluster_at (server_turn lone_server_env) (duo_cluster 0 0) duo_events t) i = Some n"
  from t show "prefix (ll_log (sv_omnipaxos (snd n))) [lone_put]"
    by (rule duo_at) (use n duo_nodes in \<open>auto intro: prefix_order.trans\<close>)
next
  fix t i n c
  assume t: "t \<le> length duo_events"
    and n: "cl_nodes (cluster_at (server_turn lone_server_env) (duo_cluster 0 0) duo_events t) i = Some n"
    and c: "c \<in> set (ll_log (sv_omnipaxos (snd n)))"
  from t show "\<exists>j m. cl_nodes (cluster_at (server_turn lone_server_env) (duo_cluster 0 0) duo_events t) j =
      Some m \<and> c \<in> set (ll_proposed (sv_omnipaxos (snd m)))"
  proof (rule duo_at)
    fix a b
    assume "cluster_at (server_turn lone_server_env) (duo_cluster 0 0) duo_events t = duo_cluster a b"
      "prefix (ll_log (sv_omnipaxos (snd (duo_b b)))) (ll_log (sv_omnipaxos (snd (duo_a a))))"
      "ll_proposed (sv_omnipaxos (snd (duo_a a))) = ll_log (sv_omnipaxos (snd (duo_a a)))"
    with n c show ?thesis
      by (intro exI [of _ 1] exI [of _ "duo_a a"]) (auto simp: duo_nodes dest: set_mono_prefix)
  qed
qed

section \<open>What the client of the scenario observes\<close>

lemma duo_requests: "set (run_requests (server_requests duo_events) 5) = {lone_put}"
proof -
  have "[0..<5] = [0, 1, 2, 3, 4]" by (simp add: upt_rec)
  then show ?thesis
    by (simp add: run_requests_def server_requests_def duo_events_def batch_commands_def lone_put_def)
qed

lemma duo_unused: "unused_channels qc_sent (duo_cluster 0 0)"
  by (auto simp: unused_channels_def duo_nodes duo_a_def duo_b_def duo_server_def duo_net_def
      client_channel_def lone_client_def split: if_splits)

lemma duo_records: "records (client_chan (se_chan lone_server_env)) qc_sent"
  by (simp add: lone_server_env_def queue_channels_def records_queue)

interpretation dx: exactly_once_servers lone_server_env ll_log "\<lambda>s. set (ll_proposed s)" "duo_cluster 0 0"
  duo_events "[lone_put]" qc_sent
  by unfold_locales (use duo_requests duo_unused duo_records in simp_all)

text \<open>The write is due: its coordinator has handled a consensus message with the write decided.\<close>

lemma duo_due: "server_due lone_server_env ll_log (duo_cluster 0 0) duo_events lone_put"
proof -
  have at: "cluster_at (server_turn lone_server_env) (duo_cluster 0 0) duo_events (Suc 4) = duo_cluster 3 2"
    using duo_states(6) by (simp add: eval_nat_numeral)
  have up: "cl_crashed (duo_cluster 3 2) = []" "cl_nodes (duo_cluster 3 2) 1 = Some (duo_a 3)"
    by (simp_all add: duo_cluster_def)
  have ev: "duo_events ! 4 = (1, ClusterBatch [(2, OmniPaxosMessage (1, [lone_put]))])"
    by (simp add: duo_events_def)
  have put: "cmd_coordinator_id lone_put = 1" "cmd_client_id lone_put = 1" by (simp_all add: lone_put_def)
  have "client_channel (sv_network (snd (duo_a 3))) 1 \<noteq> None" "lone_put \<in> set (ll_log (sv_omnipaxos (snd (duo_a 3))))"
    by (simp_all add: duo_a_def duo_server_def duo_net_def client_channel_def lone_client_def)
  with ev up show ?thesis
    unfolding server_due_def put
    by (intro exI [of _ 4] conjI exI [of _ "[(2, OmniPaxosMessage (1, [lone_put]))]"] exI [of _ 2]
        exI [of _ "(1, [lone_put])"] exI [of _ "duo_a 3"]) (simp_all only: at, simp_all)
qed

end
