(* ===== verification/Client_Network.thy ===== *)
theory Client_Network
  imports KV_Store Connections Omnipaxos_Interface
begin

text \<open>
  The client's network (\<open>src/client/network.rs\<close>): a table of server connections indexed by server id.
  Address resolution, the TCP connection and its registration are parameters; a channel takes a
  message or refuses it.
\<close>

record 'c client_network =
  server_connections :: "'c option list"
  cn_batch_size :: nat

text \<open>\<open>max().unwrap()\<close> of the ids; the table gets a slot for each id up to it, in \<open>usize\<close> arithmetic.\<close>

definition max_server_id :: "(op_node_id \<times> string) list \<Rightarrow> nat res" where
  "max_server_id servers =
     bind_res (unwrap (if servers = [] then None else Some (Max (set (map fst servers)))))
       (\<lambda>m. Inr (unat m))"

definition resolve_all ::
    "(string \<Rightarrow> 'a list option) \<Rightarrow> (op_node_id \<times> string) list \<Rightarrow> (op_node_id \<times> 'a) list res" where
  "resolve_all to_socket_addrs servers =
     map_res (\<lambda>(i, s).
        bind_res (expect ''Unable to resolve server IP'' (to_socket_addrs s))
          (\<lambda>addrs. bind_res (unwrap (case addrs of [] \<Rightarrow> None | x # _ \<Rightarrow> Some x)) (\<lambda>a. Inr (i, a))))
       servers"

text \<open>
  A connection task tries until the stream is there (the attempts are given as a list) and registers;
  it panics when the registration cannot be sent, and is unfinished (\<open>None\<close>) while nothing connects.
\<close>

fun get_server_connection ::
    "('s \<Rightarrow> registration_message \<Rightarrow> 's option) \<Rightarrow> ('s \<Rightarrow> 'c) \<Rightarrow> ('e + 's) list \<Rightarrow> 'c res option" where
  "get_server_connection send_reg frame_clients [] = None"
| "get_server_connection send_reg frame_clients (Inr stream # attempts) =
     Some (bind_res (expect ''Couldn't send registration to server'' (send_reg stream ClientRegister))
             (\<lambda>stream'. Inr (frame_clients stream')))"
| "get_server_connection send_reg frame_clients (Inl e # attempts) =
     get_server_connection send_reg frame_clients attempts"

text \<open>\<open>join_all\<close>: all results once every task has finished.\<close>

fun join_all :: "('i \<times> 'r option) list \<Rightarrow> ('i \<times> 'r) list option" where
  "join_all [] = Some []"
| "join_all ((i, None) # ts) = None"
| "join_all ((i, Some r) # ts) = map_option (Cons (i, r)) (join_all ts)"

text \<open>A task that panicked is an error of the join, which is a panic.\<close>

definition store_connection :: "'c client_network \<Rightarrow> op_node_id \<times> 'c res \<Rightarrow> 'c client_network res" where
  "store_connection net srv =
     (case snd srv of
        Inl _ \<Rightarrow> Inl (Panic ''Unable to establish connection to server'')
      | Inr c \<Rightarrow>
          if unat (fst srv) < length (server_connections net)
          then Inr (net\<lparr>server_connections := (server_connections net)[unat (fst srv) := Some c]\<rparr>)
          else Inl (Panic ''index out of bounds''))"

definition client_network_new ::
    "(string \<Rightarrow> 'a list option) \<Rightarrow> (op_node_id \<Rightarrow> 'a \<Rightarrow> 'c res option) \<Rightarrow> (op_node_id \<times> string) list \<Rightarrow> nat
       \<Rightarrow> 'c client_network option res" where
  "client_network_new to_socket_addrs task servers batch =
     bind_res (max_server_id servers)
       (\<lambda>m. bind_res (resolve_all to_socket_addrs servers)
         (\<lambda>srvs. case join_all (map (\<lambda>(i, a). (i, task i a)) srvs) of
            None \<Rightarrow> Inr None
          | Some results \<Rightarrow>
              bind_res (fold_res store_connection
                          \<lparr>server_connections = replicate ((m + 1) mod 2 ^ 64) None, cn_batch_size = batch\<rparr> results)
                (\<lambda>net. Inr (Some net))))"

definition client_send ::
    "('c \<Rightarrow> client_message \<Rightarrow> 'c option) \<Rightarrow> 'c client_network \<Rightarrow> op_node_id \<Rightarrow> client_message
       \<Rightarrow> 'c client_network" where
  "client_send chan net to msg =
     (if unat to < length (server_connections net)
      then (case server_connections net ! unat to of
              Some c \<Rightarrow>
                net\<lparr>server_connections := (server_connections net)[unat to := chan c msg]\<rparr>
            | None \<Rightarrow> net)
      else net)"

definition client_network_shutdown :: "'c client_network \<Rightarrow> 'c client_network" where
  "client_network_shutdown net =
     net\<lparr>server_connections := replicate (length (server_connections net)) None\<rparr>"

section \<open>The reader and writer loops\<close>

fun server_reader_chunk :: "('q \<Rightarrow> 'm \<Rightarrow> 'q option) \<Rightarrow> 'q \<Rightarrow> ('e + 'm) list \<Rightarrow> 'q res" where
  "server_reader_chunk deliver q [] = Inr q"
| "server_reader_chunk deliver q (Inr m # ms) =
     bind_res (unwrap (deliver q m)) (\<lambda>q'. server_reader_chunk deliver q' ms)"
| "server_reader_chunk deliver q (Inl e # ms) = server_reader_chunk deliver q ms"

definition server_reader :: "('q \<Rightarrow> 'm \<Rightarrow> 'q option) \<Rightarrow> 'q \<Rightarrow> ('e + 'm) list list \<Rightarrow> 'q res" where
  "server_reader deliver q chunks = fold_res (server_reader_chunk deliver) q chunks"

definition server_writer_batch ::
    "('w \<Rightarrow> 'm \<Rightarrow> 'w option) \<Rightarrow> ('w \<Rightarrow> 'w option) \<Rightarrow> 'w \<Rightarrow> 'm list \<Rightarrow> bool \<times> 'w" where
  "server_writer_batch put flush w buffer =
     (let (_, w') = feed_batch put w buffer
      in case flush w' of None \<Rightarrow> (False, w') | Some w'' \<Rightarrow> (True, w''))"

definition server_writer ::
    "('w \<Rightarrow> 'm \<Rightarrow> 'w option) \<Rightarrow> ('w \<Rightarrow> 'w option) \<Rightarrow> 'w \<Rightarrow> 'm list list \<Rightarrow> bool \<times> 'w" where
  "server_writer put flush = writer_loop (server_writer_batch put flush)"

section \<open>A connection table\<close>

definition server_channel :: "'c client_network \<Rightarrow> op_node_id \<Rightarrow> 'c option" where
  "server_channel net i =
     (if unat i < length (server_connections net) then server_connections net ! unat i else None)"

lemma client_send_channel:
  "server_channel (client_send chan net i m) =
     (server_channel net)(i := Option.bind (server_channel net i) (\<lambda>c. chan c m))"
proof
  fix j
  show "server_channel (client_send chan net i m) j =
     ((server_channel net)(i := Option.bind (server_channel net i) (\<lambda>c. chan c m))) j"
    by (cases "j = i")
      (auto simp: server_channel_def client_send_def nth_list_update word_unat_eq_iff split: option.split)
qed

interpretation servers: connection_table
  "\<lambda>net i m. Inr (client_send chan net i m)" server_channel chan "\<lambda>_. True"
  for chan :: "'c \<Rightarrow> client_message \<Rightarrow> 'c option"
  by unfold_locales (simp add: client_send_channel)

lemma resolve_all_ids:
  "resolve_all to_socket_addrs servers = Inr srvs \<Longrightarrow> map fst srvs = map fst servers"
  unfolding resolve_all_def
  by (induction servers arbitrary: srvs) (auto simp: bind_res_eq_Inr split: sum.splits)

text \<open>The table has a slot for every server, so storing the connections never runs out of range.\<close>

lemma store_connections:
  assumes "\<forall>i\<in>fst ` set srvs. unat i < length (server_connections net)"
  shows "\<exists>net'. fold_res store_connection net (map (\<lambda>(i, c). (i, Inr c)) srvs) = Inr net' \<and>
           length (server_connections net') = length (server_connections net) \<and>
           server_channel net' = (\<lambda>i. case map_of (rev srvs) i of Some c \<Rightarrow> Some c | None \<Rightarrow> server_channel net i)"
  using assms
proof (induction srvs arbitrary: net)
  case Nil
  then show ?case by simp
next
  case (Cons srv srvs)
  obtain i c where srv: "srv = (i, c)" by fastforce
  let ?net = "net\<lparr>server_connections := (server_connections net)[unat i := Some c]\<rparr>"
  have i: "unat i < length (server_connections net)" using Cons.prems srv by simp
  have step: "store_connection net (i, Inr c) = Inr ?net" using i by (simp add: store_connection_def)
  have chan: "server_channel ?net = (server_channel net)(i \<mapsto> c)"
    using i by (auto simp: fun_eq_iff server_channel_def nth_list_update word_unat_eq_iff)
  obtain net' where net': "fold_res store_connection ?net (map (\<lambda>(i, c). (i, Inr c)) srvs) = Inr net'"
    "length (server_connections net') = length (server_connections net)"
    "server_channel net' = (\<lambda>j. case map_of (rev srvs) j of Some c \<Rightarrow> Some c | None \<Rightarrow> server_channel ?net j)"
    using Cons.IH [of ?net] Cons.prems by auto
  with step chan show ?case
    by (auto simp: srv fun_eq_iff map_add_def split: option.split)
qed

lemma join_all_finished: "join_all (map (\<lambda>(i, r). (i, Some r)) ts) = Some ts"
  by (induction ts) auto

lemma unat_succ_no_overflow:
  fixes m :: u64
  assumes "m \<noteq> - 1"
  shows "(unat m + 1) mod 2 ^ 64 = unat m + 1"
proof -
  have "m = - 1" if "unat m = 2 ^ 64 - 1"
  proof -
    from that have "m = of_nat (2 ^ 64 - 1)" by (metis of_nat_unat ucast_id)
    then show ?thesis by simp
  qed
  with assms have "unat m \<noteq> 2 ^ 64 - 1" by blast
  moreover have "unat m < 2 ^ LENGTH(64)" by (rule unsigned_less)
  ultimately show ?thesis by simp
qed

lemma client_network_new_ok:
  assumes "servers \<noteq> []" "\<forall>i\<in>fst ` set servers. i \<noteq> - 1" "resolve_all rs servers = Inr srvs"
    and "\<forall>(i, a)\<in>set srvs. task i a = Some (Inr (conn_of i a))"
  shows "\<exists>net. client_network_new rs task servers batch = Inr (Some net) \<and>
           server_channel net = map_of (rev (map (\<lambda>(i, a). (i, conn_of i a)) srvs))"
proof -
  let ?m = "Max (set (map fst servers))"
  let ?net = "\<lparr>server_connections = replicate ((unat ?m + 1) mod 2 ^ 64) None, cn_batch_size = batch\<rparr>"
  let ?cs = "map (\<lambda>(i, a). (i, conn_of i a)) srvs"
  have "fst ` set ?cs = fst ` set servers"
    using resolve_all_ids [OF assms(3)] by (metis (no_types, lifting) case_prod_beta fst_conv image_cong
        image_image list.set_map)
  moreover have "unat i < unat ?m + 1" if "i \<in> fst ` set servers" for i
    using that by (simp add: less_Suc_eq_le word_le_nat_alt [symmetric])
  moreover have "?m \<in> fst ` set servers" using assms(1) Max_in [of "fst ` set servers"] by simp
  with assms(2) have "?m \<noteq> - 1" by blast
  then have "(unat ?m + 1) mod 2 ^ 64 = unat ?m + 1" by (rule unat_succ_no_overflow)
  ultimately have "\<forall>i\<in>fst ` set ?cs. unat i < length (server_connections ?net)" by simp
  from store_connections [OF this] obtain net where
    net: "fold_res store_connection ?net (map (\<lambda>(i, c). (i, Inr c)) ?cs) = Inr net"
    "server_channel net = (\<lambda>i. case map_of (rev ?cs) i of Some c \<Rightarrow> Some c | None \<Rightarrow> server_channel ?net i)"
    by blast
  have empty: "server_channel ?net i = None" for i
    by (simp add: server_channel_def nth_Cons split: nat.split)
  have "join_all (map (\<lambda>(i, a). (i, task i a)) srvs) = Some (map (\<lambda>(i, c). (i, Inr c)) ?cs)"
    using assms(4) by (induction srvs) auto
  with assms(1,3) net(1) have "client_network_new rs task servers batch = Inr (Some net)"
    by (simp add: client_network_new_def max_server_id_def)
  moreover have "server_channel net = map_of (rev ?cs)"
    unfolding net(2) empty by (auto simp: fun_eq_iff split: option.split)
  ultimately show ?thesis by blast
qed

text \<open>The server is reached after some failed attempts and takes the registration.\<close>

fun reached :: "('s \<Rightarrow> registration_message \<Rightarrow> 's option) \<Rightarrow> ('e + 's) list \<Rightarrow> bool" where
  "reached send_reg [] = False"
| "reached send_reg (Inr stream # attempts) = (send_reg stream ClientRegister \<noteq> None)"
| "reached send_reg (Inl e # attempts) = reached send_reg attempts"

lemma reached_connection:
  "reached send_reg attempts \<Longrightarrow> \<exists>c. get_server_connection send_reg frame_clients attempts = Some (Inr c)"
  by (induction send_reg attempts rule: reached.induct) auto

end
