(* ===== verification/Client.thy ===== *)
theory Client
  imports Complex_Main Client_Network Files
begin

text \<open>
  The benchmark client (\<open>src/client/client.rs\<close>, \<open>data_collection.rs\<close>, \<open>configs.rs\<close>, \<open>main.rs\<close>): the request
  intervals, the collected data, the handlers and the event loop. Clock readings and random numbers are
  part of the events; durations are milliseconds.
\<close>

section \<open>Configuration\<close>

record request_interval =
  duration_sec :: u64
  requests_per_sec :: u64
  read_ratio :: real

record client_config =
  cc_location :: string
  cc_server_id :: op_node_id
  cc_server_address :: string
  requests :: "request_interval list"
  sync_time :: "timestamp option"
  summary_filepath :: string
  cc_output_filepath :: string

definition client_config_new ::
    "(string \<Rightarrow> string option) \<Rightarrow> (string \<Rightarrow> 'e + client_config) \<Rightarrow> ('e + client_config) res" where
  "client_config_new var load =
     bind_res (expect ''Requires CONFIG_FILE environment variable to be set'' (var ''CONFIG_FILE''))
       (\<lambda>config_file. Inr (load config_file))"

definition get_read_ratio :: "request_interval \<Rightarrow> real" where
  "get_read_ratio r = read_ratio r"

definition get_interval_duration :: "request_interval \<Rightarrow> nat" where
  "get_interval_duration r = unat (duration_sec r) * 1000"

definition get_request_delay :: "request_interval \<Rightarrow> nat res" where
  "get_request_delay r =
     (if requests_per_sec r = 0 then Inr (999999 * 1000)
      else (let delay_ms = 1000 div requests_per_sec r
            in if delay_ms \<noteq> 0 then Inr (unat delay_ms)
               else Inl (Panic ''assertion failed: delay_ms != 0'')))"

section \<open>Collected data\<close>

record request_data =
  request_time :: timestamp
  is_write_request :: bool
  response_time :: "timestamp option"

record client_data =
  cd_requests :: "request_data list"
  response_count :: nat

definition client_data_new :: client_data where
  "client_data_new = \<lparr>cd_requests = [], response_count = 0\<rparr>"

definition new_request :: "client_data \<Rightarrow> bool \<Rightarrow> timestamp \<Rightarrow> client_data" where
  "new_request d is_write now_ms =
     d\<lparr>cd_requests := cd_requests d @
       [\<lparr>request_time = now_ms, is_write_request = is_write, response_time = None\<rparr>]\<rparr>"

definition new_response :: "client_data \<Rightarrow> nat \<Rightarrow> timestamp \<Rightarrow> client_data res" where
  "new_response d i now_ms =
     (if i < length (cd_requests d)
      then Inr (d\<lparr>cd_requests := (cd_requests d)[i := (cd_requests d ! i)\<lparr>response_time := Some now_ms\<rparr>],
                  response_count := response_count d + 1\<rparr>)
      else Inl (Panic ''index out of bounds''))"

definition request_count :: "client_data \<Rightarrow> nat" where
  "request_count d = length (cd_requests d)"

section \<open>The client\<close>

record 'c client =
  cl_id :: op_node_id
  cl_network :: "'c client_network"
  cl_data :: client_data
  cl_config :: client_config
  active_server :: op_node_id
  final_request_count :: "nat option"
  next_request_id :: nat

definition client_new :: "client_config \<Rightarrow> 'c client_network \<Rightarrow> 'c client" where
  "client_new cfg net =
     \<lparr>cl_id = cc_server_id cfg, cl_network = net, cl_data = client_data_new, cl_config = cfg,
      active_server = cc_server_id cfg, final_request_count = None, next_request_id = 0\<rparr>"

definition handle_server_message :: "'c client \<Rightarrow> server_message \<Rightarrow> timestamp \<Rightarrow> 'c client res" where
  "handle_server_message c msg now_ms =
     (case msg of
        StartSignal _ \<Rightarrow> Inr c
      | _ \<Rightarrow> bind_res (command_id msg)
               (\<lambda>i. bind_res (new_response (cl_data c) i now_ms) (\<lambda>d. Inr (c\<lparr>cl_data := d\<rparr>))))"

definition next_request :: "'c client \<Rightarrow> bool \<Rightarrow> client_message" where
  "next_request c is_write =
     (let key = show_nat (next_request_id c)
      in Append (next_request_id c) (if is_write then Put key key else Get key))"

definition send_request ::
    "('c \<Rightarrow> client_message \<Rightarrow> 'c option) \<Rightarrow> 'c client \<Rightarrow> bool \<Rightarrow> timestamp \<Rightarrow> 'c client" where
  "send_request chan c is_write now_ms =
     c\<lparr>cl_network := client_send chan (cl_network c) (active_server c) (next_request c is_write),
       cl_data := new_request (cl_data c) is_write now_ms,
       next_request_id := next_request_id c + 1\<rparr>"

definition run_finished :: "'c client \<Rightarrow> bool" where
  "run_finished c =
     (case final_request_count c of
        Some n \<Rightarrow> request_count (cl_data c) \<ge> n
      | None \<Rightarrow> False)"

text \<open>The configuration afterwards, and how many milliseconds the client sleeps.\<close>

definition wait_until_sync_time :: "client_config \<Rightarrow> timestamp \<Rightarrow> timestamp \<Rightarrow> client_config \<times> nat" where
  "wait_until_sync_time cfg scheduled_start_utc_ms now_ms =
     (let milliseconds_until_sync = scheduled_start_utc_ms - now_ms
      in (cfg\<lparr>sync_time := Some milliseconds_until_sync\<rparr>,
          if sint milliseconds_until_sync > 0 then unat milliseconds_until_sync else 0))"

section \<open>Saving\<close>

definition save_summary ::
    "'f file_ops \<Rightarrow> (client_config \<Rightarrow> string option) \<Rightarrow> client_config \<Rightarrow> 'f option" where
  "save_summary F to_string_pretty cfg = write_json F to_string_pretty (summary_filepath cfg) cfg"

text \<open>One line per request; \<open>serialize\<close> is the CSV writer's.\<close>

definition to_csv ::
    "'f file_ops \<Rightarrow> ('f \<Rightarrow> request_data \<Rightarrow> 'f option) \<Rightarrow> client_data \<Rightarrow> string \<Rightarrow> 'f option" where
  "to_csv F serialize d file_path =
     Option.bind (feed serialize (fo_create F file_path) (cd_requests d)) (fo_flush F)"

record 'f client_files =
  cf_ops :: "'f file_ops"
  cf_json :: "client_config \<Rightarrow> string option"
  cf_serialize :: "'f \<Rightarrow> request_data \<Rightarrow> 'f option"

text \<open>The summary and the table, when both were written.\<close>

definition save_results :: "'f client_files \<Rightarrow> 'c client \<Rightarrow> ('f \<times> 'f) option" where
  "save_results F c =
     Option.bind (save_summary (cf_ops F) (cf_json F) (cl_config c))
       (\<lambda>summary. Option.bind (to_csv (cf_ops F) (cf_serialize F) (cl_data c) (cc_output_filepath (cl_config c)))
         (\<lambda>table. Some (summary, table)))"

section \<open>The event loop\<close>

text \<open>The branches of the \<open>select!\<close>: a server message, a request tick with its random number, the end of
  an interval.\<close>

datatype client_event =
    ServerMsg server_message timestamp
  | RequestTick real timestamp
  | IntervalTick

record 'c loop_state =
  lp_client :: "'c client"
  lp_read_ratio :: real
  lp_intervals :: "request_interval list"

text \<open>\<open>tokio::time::interval\<close> panics on a zero period.\<close>

definition interval :: "nat \<Rightarrow> unit res" where
  "interval period_ms = (if period_ms = 0 then Inl (Panic ''`period` must be non-zero.'') else Inr ())"

definition start_interval :: "request_interval \<Rightarrow> unit res" where
  "start_interval r =
     bind_res (interval (get_interval_duration r))
       (\<lambda>_. bind_res (get_request_delay r) (\<lambda>d. interval d))"

text \<open>One turn of the loop; the flag says whether it breaks.\<close>

fun client_step ::
    "('c \<Rightarrow> client_message \<Rightarrow> 'c option) \<Rightarrow> 'c loop_state \<Rightarrow> client_event \<Rightarrow> (bool \<times> 'c loop_state) res" where
  "client_step chan l (ServerMsg msg now_ms) =
     bind_res (handle_server_message (lp_client l) msg now_ms)
       (\<lambda>c. Inr (run_finished c, l\<lparr>lp_client := c\<rparr>))"
| "client_step chan l (RequestTick r now_ms) =
     (if final_request_count (lp_client l) = None
      then Inr (False, l\<lparr>lp_client := send_request chan (lp_client l) (r > lp_read_ratio l) now_ms\<rparr>)
      else Inr (False, l))"
| "client_step chan l IntervalTick =
     (case lp_intervals l of
        new_interval # rest \<Rightarrow>
          bind_res (start_interval new_interval)
            (\<lambda>_. Inr (False, l\<lparr>lp_read_ratio := read_ratio new_interval, lp_intervals := rest\<rparr>))
      | [] \<Rightarrow>
          (let c = (lp_client l)\<lparr>final_request_count := Some (request_count (cl_data (lp_client l)))\<rparr>
           in Inr (run_finished c, l\<lparr>lp_client := c\<rparr>)))"

fun client_loop ::
    "('c \<Rightarrow> client_message \<Rightarrow> 'c option) \<Rightarrow> 'c loop_state \<Rightarrow> client_event list \<Rightarrow> (bool \<times> 'c loop_state) res" where
  "client_loop chan l [] = Inr (False, l)"
| "client_loop chan l (ev # evs) =
     bind_res (client_step chan l ev)
       (\<lambda>(fin, l'). if fin then Inr (True, l') else client_loop chan l' evs)"

text \<open>
  \<open>run\<close>: the start signal, the first interval, the loop, the shutdown of the network and the saving of
  the results. Nothing is saved yet (\<open>None\<close>) when the events end before the loop does.
\<close>

definition client_run ::
    "('c \<Rightarrow> client_message \<Rightarrow> 'c option) \<Rightarrow> 'f client_files \<Rightarrow> 'c client \<Rightarrow> server_message option \<Rightarrow> timestamp
       \<Rightarrow> client_event list \<Rightarrow> ('c client \<times> ('f \<times> 'f) option) res" where
  "client_run chan F c first now_ms evs =
     (case first of
        Some (StartSignal start_time) \<Rightarrow>
          (let c = c\<lparr>cl_config := fst (wait_until_sync_time (cl_config c) start_time now_ms)\<rparr>;
               finish = (\<lambda>c. bind_res (expect ''Failed to save results'' (save_results F c))
                               (\<lambda>files. Inr (c, Some files)))
           in case requests (cl_config c) of
                [] \<Rightarrow> finish c
              | first_interval # rest \<Rightarrow>
                  bind_res (bind_res (get_request_delay first_interval) interval)
                    (\<lambda>_. bind_res (interval (get_interval_duration first_interval))
                    (\<lambda>_. bind_res (client_loop chan
                            \<lparr>lp_client = c, lp_read_ratio = get_read_ratio first_interval,
                             lp_intervals = rest\<rparr> evs)
                    (\<lambda>(fin, l).
                        if fin
                        then finish ((lp_client l)
                               \<lparr>cl_network := client_network_shutdown (cl_network (lp_client l))\<rparr>)
                        else Inr (lp_client l, None)))))
      | _ \<Rightarrow> Inl (Panic ''Error waiting for start signal''))"

text \<open>\<open>Client::new\<close> and \<open>main\<close>; \<open>None\<close> while the client is not connected.\<close>

definition client_main ::
    "('c \<Rightarrow> client_message \<Rightarrow> 'c option) \<Rightarrow> 'f client_files \<Rightarrow> (string \<Rightarrow> string option)
       \<Rightarrow> (string \<Rightarrow> string + client_config) \<Rightarrow> (string \<Rightarrow> 'a list option)
       \<Rightarrow> (op_node_id \<Rightarrow> 'a \<Rightarrow> 'c res option) \<Rightarrow> server_message option \<Rightarrow> timestamp \<Rightarrow> client_event list
       \<Rightarrow> ('c client \<times> ('f \<times> 'f) option) option res" where
  "client_main chan F var load to_socket_addrs task first now_ms evs =
     bind_res (client_config_new var load)
       (\<lambda>parsed. case parsed of
           Inl e \<Rightarrow> Inl (Panic e)
         | Inr cfg \<Rightarrow>
             bind_res (client_network_new to_socket_addrs task [(cc_server_id cfg, cc_server_address cfg)] 100)
               (\<lambda>connected. case connected of
                   None \<Rightarrow> Inr None
                 | Some net \<Rightarrow>
                     bind_res (client_run chan F (client_new cfg net) first now_ms evs)
                       (\<lambda>r. Inr (Some r))))"

section \<open>The invariant\<close>

definition request_msg :: "nat \<Rightarrow> bool \<Rightarrow> client_message" where
  "request_msg i is_write = Append i (if is_write then Put (show_nat i) (show_nat i) else Get (show_nat i))"

text \<open>The requests a client has recorded, as the messages it sent for them.\<close>

definition recorded_requests :: "client_data \<Rightarrow> client_message list" where
  "recorded_requests d =
     map (\<lambda>(i, w). request_msg i w)
       (zip [0..<length (cd_requests d)] (map is_write_request (cd_requests d)))"

text \<open>
  The next request has the next number, and the server's channel has taken exactly the recorded
  requests; \<open>ch\<close> is the channel at the start.
\<close>

definition client_inv ::
    "('c \<Rightarrow> client_message \<Rightarrow> 'c option) \<Rightarrow> 'c option \<Rightarrow> 'c client \<Rightarrow> bool" where
  "client_inv chan ch c \<longleftrightarrow>
     next_request_id c = request_count (cl_data c) \<and>
     server_channel (cl_network c) (active_server c) = feed chan ch (recorded_requests (cl_data c))"

lemma next_request_msg: "next_request c w = request_msg (next_request_id c) w"
  by (simp add: next_request_def request_msg_def Let_def)

lemma recorded_new_request:
  "recorded_requests (new_request d w t) = recorded_requests d @ [request_msg (request_count d) w]"
  by (simp add: recorded_requests_def new_request_def request_count_def)

lemma new_response_requests:
  assumes "new_response d i t = Inr d'"
  shows "recorded_requests d' = recorded_requests d" "request_count d' = request_count d"
proof -
  have "map is_write_request ((cd_requests d)[i := (cd_requests d ! i)\<lparr>response_time := Some t\<rparr>]) =
      map is_write_request (cd_requests d)" if "i < length (cd_requests d)"
    using that by (simp add: map_update list_update_same_conv)
  with assms show "recorded_requests d' = recorded_requests d" "request_count d' = request_count d"
    by (auto simp: new_response_def recorded_requests_def request_count_def split: if_splits)
qed

lemma send_request_inv:
  assumes "client_inv chan ch c"
  shows "client_inv chan ch (send_request chan c w t)"
proof -
  have "request_count (new_request d w t) = request_count d + 1" for d
    by (simp add: request_count_def new_request_def)
  with assms show ?thesis
    by (simp add: client_inv_def send_request_def client_send_channel next_request_msg
        recorded_new_request feed_append feed_Cons)
qed

lemma handle_server_message_inv:
  assumes "client_inv chan ch c" "handle_server_message c msg t = Inr c'"
  shows "client_inv chan ch c'"
  using assms new_response_requests
  by (cases msg) (auto simp: handle_server_message_def client_inv_def bind_res_eq_Inr)

lemma client_step_inv:
  assumes "client_inv chan ch (lp_client l)" "client_step chan l ev = Inr (b, l')"
  shows "client_inv chan ch (lp_client l')"
proof (cases ev)
  case (ServerMsg msg t)
  with assms show ?thesis by (auto simp: bind_res_eq_Inr intro: handle_server_message_inv)
next
  case (RequestTick r t)
  with assms show ?thesis by (auto simp: send_request_inv split: if_splits)
next
  case IntervalTick
  with assms show ?thesis
    by (auto simp: bind_res_eq_Inr client_inv_def Let_def split: list.splits)
qed

lemma client_loop_inv:
  "client_inv chan ch (lp_client l) \<Longrightarrow> client_loop chan l evs = Inr (b, l') \<Longrightarrow>
     client_inv chan ch (lp_client l')"
proof (induction evs arbitrary: l)
  case (Cons ev evs)
  then obtain fin u where u: "client_step chan l ev = Inr (fin, u)"
    "(if fin then Inr (True, u) else client_loop chan u evs) = Inr (b, l')"
    by (auto simp: bind_res_eq_Inr)
  have "client_inv chan ch (lp_client u)" using Cons.prems(1) u(1) by (rule client_step_inv)
  with Cons.IH [of u] u(2) show ?case by (cases fin) auto
qed simp

lemma client_new_inv:
  "client_inv chan (server_channel net (cc_server_id cfg)) (client_new cfg net)"
  by (simp add: client_inv_def client_new_def client_data_new_def request_count_def recorded_requests_def)

section \<open>Termination\<close>

text \<open>Servers answer only what was sent: \<open>n\<close> requests have been sent before the events.\<close>

fun well_answered :: "nat \<Rightarrow> client_event list \<Rightarrow> bool" where
  "well_answered n [] = True"
| "well_answered n (RequestTick _ _ # evs) = well_answered (n + 1) evs"
| "well_answered n (ServerMsg msg _ # evs) =
     ((case command_id msg of Inr i \<Rightarrow> i < n | Inl _ \<Rightarrow> True) \<and> well_answered n evs)"
| "well_answered n (IntervalTick # evs) = well_answered n evs"

definition interval_ticks :: "client_event list \<Rightarrow> nat" where
  "interval_ticks evs = length (filter (\<lambda>ev. ev = IntervalTick) evs)"

lemma interval_ticks_Cons [simp]:
  "interval_ticks [] = 0"
  "interval_ticks (ev # evs) = (if ev = IntervalTick then Suc (interval_ticks evs) else interval_ticks evs)"
  by (simp_all add: interval_ticks_def)

lemma handle_server_message_ok:
  assumes "case command_id msg of Inr i \<Rightarrow> i < request_count (cl_data c) | Inl _ \<Rightarrow> True"
  shows "\<exists>d. handle_server_message c msg t = Inr (c\<lparr>cl_data := d\<rparr>) \<and> request_count d = request_count (cl_data c)"
proof (cases msg)
  case (StartSignal u)
  then show ?thesis by (intro exI [of _ "cl_data c"]) (simp add: handle_server_message_def)
qed (use assms in \<open>auto simp: handle_server_message_def new_response_def request_count_def\<close>)

lemma client_loop_finishes:
  assumes "next_request_id (lp_client l) = request_count (cl_data (lp_client l))"
    and "final_request_count (lp_client l) = None"
    and "\<forall>r\<in>set (lp_intervals l). start_interval r = Inr ()"
    and "well_answered (request_count (cl_data (lp_client l))) evs" "length (lp_intervals l) < interval_ticks evs"
  shows "\<exists>l'. client_loop chan l evs = Inr (True, l') \<and>
           final_request_count (lp_client l') = Some (request_count (cl_data (lp_client l'))) \<and>
           next_request_id (lp_client l') = request_count (cl_data (lp_client l'))"
  using assms
proof (induction evs arbitrary: l)
  case Nil
  then show ?case by simp
next
  case (Cons ev evs)
  let ?c = "lp_client l"
  show ?case
  proof (cases ev)
    case (ServerMsg msg t)
    with Cons.prems(4) obtain d where d: "handle_server_message ?c msg t = Inr (?c\<lparr>cl_data := d\<rparr>)"
      "request_count d = request_count (cl_data ?c)" using handle_server_message_ok by fastforce
    with Cons.IH [of "l\<lparr>lp_client := ?c\<lparr>cl_data := d\<rparr>\<rparr>"] Cons.prems ServerMsg show ?thesis
      by (simp add: run_finished_def)
  next
    case (RequestTick r t)
    let ?l = "l\<lparr>lp_client := send_request chan ?c (r > lp_read_ratio l) t\<rparr>"
    have "request_count (cl_data (lp_client ?l)) = request_count (cl_data ?c) + 1"
      by (simp add: send_request_def new_request_def request_count_def)
    moreover have "next_request_id (lp_client ?l) = next_request_id ?c + 1"
      "final_request_count (lp_client ?l) = final_request_count ?c"
      by (simp_all add: send_request_def)
    ultimately show ?thesis using Cons.IH [of ?l] Cons.prems RequestTick by simp
  next
    case IntervalTick
    show ?thesis
    proof (cases "lp_intervals l")
      case Nil
      with IntervalTick Cons.prems(1) show ?thesis by (simp add: run_finished_def Let_def)
    next
      case (Cons r rest)
      with IntervalTick Cons.prems Cons.IH [of "l\<lparr>lp_read_ratio := read_ratio r, lp_intervals := rest\<rparr>"]
      show ?thesis by simp
    qed
  qed
qed

section \<open>A concrete client\<close>

definition demo_client_config :: client_config where
  "demo_client_config =
     \<lparr>cc_location = ''l'', cc_server_id = 1, cc_server_address = ''a'', requests = [], sync_time = None,
      summary_filepath = ''s'', cc_output_filepath = ''o''\<rparr>"

definition demo_client_net :: "client_message queue_channel client_network" where
  "demo_client_net =
     \<lparr>server_connections = [None, Some \<lparr>qc_open = True, qc_sent = []\<rparr>], cn_batch_size = 100\<rparr>"

definition demo_interval :: request_interval where
  "demo_interval = \<lparr>duration_sec = 1, requests_per_sec = 2, read_ratio = 1 / 2\<rparr>"

text \<open>Files as the text of the summary and the rows of the table.\<close>

definition demo_files :: "(string \<times> request_data list) client_files" where
  "demo_files =
     \<lparr>cf_ops = \<lparr>fo_create = (\<lambda>path. Some ([], [])), fo_write = (\<lambda>(s, rows) t. Some (s @ t, rows)),
        fo_flush = Some\<rparr>,
      cf_json = (\<lambda>_. Some ''{}''), cf_serialize = (\<lambda>(s, rows) row. Some (s, rows @ [row]))\<rparr>"

text \<open>The table has one row per request, in order.\<close>

lemma demo_rows:
  "to_csv (cf_ops demo_files) (cf_serialize demo_files) d path = Some ([], cd_requests d)"
proof -
  have "feed (cf_serialize demo_files) (Some (s, rows)) ds = Some (s, rows @ ds)" for s rows ds
    by (induction ds arbitrary: rows) (simp_all add: demo_files_def)
  then show ?thesis by (simp add: to_csv_def) (simp add: demo_files_def)
qed

lemma demo_saves: "save_results demo_files c = Some ((''{}'', []), ([], cd_requests (cl_data c)))"
  unfolding save_results_def demo_rows
  by (simp add: save_summary_def write_json_def demo_files_def)

section \<open>Properties\<close>

text \<open>
  C29. A run ends: with a start signal, sound intervals and files that can be written, the client sends
  requests, ends once it has seen as many interval ticks as it has intervals (however ticks, requests
  and answers to requests it sent are interleaved), has numbered all its requests, closes every
  connection and saves its results.
\<close>

theorem client_run_completes:
  fixes net :: "'c client_network"
  assumes "requests cfg = r # rest" "\<forall>q\<in>set (r # rest). start_interval q = Inr ()"
    and "well_answered 0 evs" "length (r # rest) \<le> interval_ticks evs" "\<forall>c :: 'c client. save_results F c \<noteq> None"
  shows "\<exists>c. client_run chan F (client_new cfg net) (Some (StartSignal t)) now_ms evs = Inr (c, save_results F c) \<and>
           final_request_count c = Some (request_count (cl_data c)) \<and>
           next_request_id c = request_count (cl_data c) \<and>
           (\<forall>i. server_channel (cl_network c) i = None)"
proof -
  let ?c = "(client_new cfg net)\<lparr>cl_config := fst (wait_until_sync_time cfg t now_ms)\<rparr>"
  let ?l = "\<lparr>lp_client = ?c, lp_read_ratio = get_read_ratio r, lp_intervals = rest\<rparr>"
  have new: "request_count (cl_data ?c) = 0" "next_request_id ?c = 0" "final_request_count ?c = None"
    "cl_config (client_new cfg net) = cfg"
    by (simp_all add: client_new_def client_data_new_def request_count_def)
  obtain l where l: "client_loop chan ?l evs = Inr (True, l)"
    "final_request_count (lp_client l) = Some (request_count (cl_data (lp_client l)))"
    "next_request_id (lp_client l) = request_count (cl_data (lp_client l))"
    using client_loop_finishes [of ?l evs chan] new assms(2-4) by auto
  let ?fin = "(lp_client l)\<lparr>cl_network := client_network_shutdown (cl_network (lp_client l))\<rparr>"
  obtain files where files: "save_results F ?fin = Some files" using assms(5) by blast
  obtain d where "get_request_delay r = Inr d" "interval d = Inr ()" "interval (get_interval_duration r) = Inr ()"
    using assms(2) by (auto simp: start_interval_def bind_res_eq_Inr)
  moreover have "requests (cl_config ?c) = r # rest" using assms(1) by (simp add: wait_until_sync_time_def Let_def)
  ultimately have "client_run chan F (client_new cfg net) (Some (StartSignal t)) now_ms evs = Inr (?fin, Some files)"
    using l(1) files by (simp add: client_run_def new Let_def)
  moreover have "server_channel (cl_network ?fin) i = None" for i
    by (simp add: server_channel_def client_network_shutdown_def)
  ultimately show ?thesis using l files by (intro exI [of _ ?fin]) simp
qed

theorem client_run_completes_witness:
  "\<exists>c. client_run queue_send demo_files (client_new (demo_client_config\<lparr>requests := [demo_interval]\<rparr>) demo_client_net)
         (Some (StartSignal 5)) 3 [RequestTick 1 10, IntervalTick] =
       Inr (c, Some ((''{}'', []), ([], cd_requests (cl_data c)))) \<and>
     next_request_id c = request_count (cl_data c)"
proof -
  have "start_interval demo_interval = Inr ()"
    by (simp add: start_interval_def interval_def get_interval_duration_def get_request_delay_def
        demo_interval_def Let_def)
  with client_run_completes [of "demo_client_config\<lparr>requests := [demo_interval]\<rparr>" demo_interval "[]"
      "[RequestTick 1 10, IntervalTick]" demo_files queue_send demo_client_net 5 3]
  show ?thesis by (auto simp: demo_saves)
qed


text \<open>
  C28. Requests are numbered without gaps and recorded as sent: after any events of the loop, the next
  request number is the number of recorded requests, and the server's channel has taken exactly
  these requests, number 0, 1, 2 and so on, in order, each once (until it refuses one).
\<close>

theorem client_requests_numbered:
  assumes "client_loop chan \<lparr>lp_client = client_new cfg net, lp_read_ratio = r, lp_intervals = ivs\<rparr> evs =
             Inr (b, l)"
  shows "next_request_id (lp_client l) = request_count (cl_data (lp_client l)) \<and>
         server_channel (cl_network (lp_client l)) (active_server (lp_client l)) =
           feed chan (server_channel net (cc_server_id cfg))
             (map (\<lambda>(i, w). request_msg i w)
               (zip [0..<request_count (cl_data (lp_client l))]
                  (map is_write_request (cd_requests (cl_data (lp_client l))))))"
proof -
  have "client_inv chan (server_channel net (cc_server_id cfg)) (lp_client l)"
    using client_loop_inv [OF _ assms, of "server_channel net (cc_server_id cfg)"]
      client_new_inv [of chan net cfg] by simp
  then show ?thesis by (simp add: client_inv_def recorded_requests_def request_count_def)
qed

theorem client_requests_numbered_witness:
  "\<exists>l. client_loop queue_send
         \<lparr>lp_client = client_new demo_client_config demo_client_net, lp_read_ratio = 1 / 2, lp_intervals = []\<rparr>
         [RequestTick 1 10, ServerMsg (WriteResp 0) 11, RequestTick 0 12] = Inr (False, l) \<and>
       server_channel (cl_network (lp_client l)) 1 =
         Some \<lparr>qc_open = True, qc_sent = [request_msg 0 True, request_msg 1 False]\<rparr>"
proof -
  let ?l0 = "\<lparr>lp_client = client_new demo_client_config demo_client_net, lp_read_ratio = 1 / 2,
      lp_intervals = []\<rparr>"
  let ?evs = "[RequestTick 1 10, ServerMsg (WriteResp 0) 11, RequestTick 0 12]"
  obtain l where l: "client_loop queue_send ?l0 ?evs = Inr (False, l)"
    "map is_write_request (cd_requests (cl_data (lp_client l))) = [True, False]"
    "request_count (cl_data (lp_client l)) = 2" "active_server (lp_client l) = 1"
    by (simp add: client_new_def send_request_def handle_server_message_def new_request_def
        new_response_def client_data_new_def demo_client_config_def run_finished_def request_count_def)
  have "server_channel demo_client_net (cc_server_id demo_client_config) = Some \<lparr>qc_open = True, qc_sent = []\<rparr>"
    by (simp add: server_channel_def demo_client_net_def demo_client_config_def)
  with client_requests_numbered [OF l(1)] l show ?thesis
    by (auto simp: upt_rec queue_send_def)
qed

text \<open>
  C38. A response to a request that was sent is recorded and never panics: exactly the request with the
  response's number gets the time of the response, every other record stays, and the count goes up. A
  response with the number of a request that was never sent brings the client down.
\<close>

theorem response_recorded:
  assumes "client_inv chan ch c" "command_id msg = Inr i"
  shows "if i < next_request_id c
         then \<exists>c'. handle_server_message c msg t = Inr c' \<and> client_inv chan ch c' \<and>
           response_count (cl_data c') = response_count (cl_data c) + 1 \<and>
           (\<forall>j < next_request_id c. response_time (cd_requests (cl_data c') ! j) =
              (if j = i then Some t else response_time (cd_requests (cl_data c) ! j)))
         else \<exists>p. handle_server_message c msg t = Inl p"
proof -
  let ?d = "(cl_data c)\<lparr>cd_requests := (cd_requests (cl_data c))
      [i := (cd_requests (cl_data c) ! i)\<lparr>response_time := Some t\<rparr>],
      response_count := response_count (cl_data c) + 1\<rparr>"
  have len: "next_request_id c = length (cd_requests (cl_data c))"
    using assms(1) by (simp add: client_inv_def request_count_def)
  have msg: "handle_server_message c msg t =
      bind_res (new_response (cl_data c) i t) (\<lambda>d. Inr (c\<lparr>cl_data := d\<rparr>))"
    using assms(2) by (cases msg) (simp_all add: handle_server_message_def)
  show ?thesis
  proof (cases "i < next_request_id c")
    case True
    with len have "new_response (cl_data c) i t = Inr ?d" by (simp add: new_response_def)
    with msg have run: "handle_server_message c msg t = Inr (c\<lparr>cl_data := ?d\<rparr>)" by simp
    with assms(1) have "client_inv chan ch (c\<lparr>cl_data := ?d\<rparr>)" by (rule handle_server_message_inv)
    with run len True show ?thesis
      unfolding if_P [OF True] by (intro exI [of _ "c\<lparr>cl_data := ?d\<rparr>"]) (simp add: nth_list_update)
  next
    case False
    with len msg show ?thesis by (simp add: new_response_def)
  qed
qed

theorem response_recorded_witness:
  "\<exists>c'. handle_server_message (send_request queue_send (client_new demo_client_config demo_client_net) True 10)
          (WriteResp 0) 15 = Inr c' \<and> response_count (cl_data c') = 1"
proof -
  let ?c = "send_request queue_send (client_new demo_client_config demo_client_net) True 10"
  have "client_inv queue_send (server_channel demo_client_net (cc_server_id demo_client_config)) ?c"
    by (rule send_request_inv [OF client_new_inv])
  moreover have "0 < next_request_id ?c" "response_count (cl_data ?c) = 0"
    by (simp_all add: send_request_def client_new_def client_data_new_def new_request_def)
  ultimately show ?thesis using response_recorded [of queue_send _ ?c "WriteResp 0" 0 15] by force
qed

text \<open>
  C39. The pause between requests: none asked for means a request every 999999 seconds, up to 1000 per
  second the pause is \<open>1000 div n\<close> milliseconds, between 1 and 1000, so that at least \<open>n\<close> requests
  fit into a second, and more than 1000 per second is refused by a panic.
\<close>

theorem request_delay_bounds:
  "get_request_delay r =
     (let n = unat (requests_per_sec r)
      in if n = 0 then Inr 999999000
         else if n \<le> 1000 then Inr (1000 div n)
         else Inl (Panic ''assertion failed: delay_ms != 0'')) \<and>
   (\<forall>d. get_request_delay r = Inr d \<longrightarrow> 0 < d \<and>
      (requests_per_sec r \<noteq> 0 \<longrightarrow> d \<le> 1000 \<and> unat (requests_per_sec r) * d \<le> 1000))"
proof -
  let ?n = "unat (requests_per_sec r)"
  have div: "unat (1000 div requests_per_sec r) = 1000 div ?n" by (simp add: unat_div)
  have zero: "1000 div requests_per_sec r = 0 \<longleftrightarrow> 1000 div ?n = 0"
    by (metis div unat_eq_zero)
  have eq: "get_request_delay r =
     (if ?n = 0 then Inr 999999000
      else if ?n \<le> 1000 then Inr (1000 div ?n)
      else Inl (Panic ''assertion failed: delay_ms != 0''))"
    using zero by (auto simp: get_request_delay_def Let_def div unat_eq_zero div_eq_0_iff)
  moreover have "?n * (1000 div ?n) \<le> 1000" "1000 div ?n \<le> 1000" by (simp_all add: div_le_dividend)
  moreover have "0 < 1000 div ?n" if "?n \<noteq> 0" "?n \<le> 1000" using that by (simp add: div_greater_zero_iff)
  ultimately show ?thesis by (auto simp: Let_def unat_eq_zero split: if_splits)
qed

theorem request_delay_bounds_witness:
  "get_request_delay \<lparr>duration_sec = 10, requests_per_sec = 300, read_ratio = 1 / 2\<rparr> = Inr 3"
  using request_delay_bounds [of "\<lparr>duration_sec = 10, requests_per_sec = 300, read_ratio = 1 / 2\<rparr>"]
  by (simp add: Let_def)

text \<open>
  At the end of the last interval the client stops at once, whatever is still unanswered: the loop
  breaks in the very step that fixes the final request count, because that count is compared with
  the number of requests and not with the number of responses.
\<close>

lemma client_stops_without_waiting:
  "\<exists>l. client_step chan \<lparr>lp_client = c, lp_read_ratio = r, lp_intervals = []\<rparr> IntervalTick = Inr (True, l) \<and>
       cl_data (lp_client l) = cl_data c"
  by (simp add: run_finished_def Let_def)

text \<open>
  C40. Connecting works for any set of servers: when every address resolves, every server is reached
  after finitely many failed attempts and takes the registration, and no id is the largest \<open>u64\<close>
  (the size of the table would wrap to zero), creating the network ends and
  exactly the servers asked for are connected.
\<close>

theorem client_connects:
  assumes "servers \<noteq> []" "\<forall>i\<in>fst ` set servers. i \<noteq> - 1" "resolve_all rs servers = Inr srvs"
    and "\<forall>(i, a)\<in>set srvs. reached send_reg (dial i a)"
  shows "\<exists>net. client_network_new rs (\<lambda>i a. get_server_connection send_reg frame_clients (dial i a)) servers batch =
             Inr (Some net) \<and>
           (\<forall>i. server_channel net i \<noteq> None \<longleftrightarrow> i \<in> fst ` set servers)"
proof -
  let ?task = "\<lambda>i a. get_server_connection send_reg frame_clients (dial i a)"
  let ?conn = "\<lambda>i a. projr (the (?task i a))"
  have "\<forall>(i, a)\<in>set srvs. ?task i a = Some (Inr (?conn i a))"
    using assms(4) reached_connection [of send_reg _ frame_clients] by fastforce
  from client_network_new_ok [OF assms(1-3) this] obtain net where net:
    "client_network_new rs ?task servers batch = Inr (Some net)"
    "server_channel net = map_of (rev (map (\<lambda>(i, a). (i, ?conn i a)) srvs))" by blast
  have "server_channel net i \<noteq> None \<longleftrightarrow> i \<in> set (map fst srvs)" for i
    unfolding net(2) by (force simp: map_of_eq_None_iff)
  with net(1) show ?thesis unfolding resolve_all_ids [OF assms(3)] by simp
qed

theorem client_connects_witness:
  "\<exists>net. client_network_new (\<lambda>s. Some [s])
      (\<lambda>i a. get_server_connection (\<lambda>s m. Some s) id [Inl (), Inr (i, a)]) [(3, ''x''), (1, ''y'')] 100 =
        Inr (Some net) \<and> server_channel net 3 \<noteq> None \<and> server_channel net 2 = None"
proof -
  have "resolve_all (\<lambda>s. Some [s]) [(3, ''x''), (1, ''y'')] = Inr [(3, ''x''), (1, ''y'')]"
    by (simp add: resolve_all_def)
  from client_connects [OF _ _ this, of "\<lambda>s m. Some s" "\<lambda>i a. [Inl (), Inr (i, a)]" id 100]
  obtain net where "client_network_new (\<lambda>s. Some [s])
      (\<lambda>i a. get_server_connection (\<lambda>s m. Some s) id [Inl (), Inr (i, a)]) [(3, ''x''), (1, ''y'')] 100 =
        Inr (Some net)" "\<forall>i. server_channel net i \<noteq> None \<longleftrightarrow> i \<in> {3, 1}" by auto
  then show ?thesis by (intro exI [of _ net]) (auto dest: spec [of _ 2])
qed

end
