(* ===== verification/Spec2Isabelle.thy ===== *)
theory Spec2Isabelle
  imports Cluster_Scenario Harness_Safety Recording Server_Scenario Client
begin

text \<open>
  Verification of the OmniPaxos key-value store and of its test harness.

  \<^bold>\<open>The program.\<close> The repository has four binaries around the consensus library OmniPaxos.
  \<open>src/bin/maelstrom_node.rs\<close> is a node that speaks the Maelstrom protocol on its standard input and
  output: it puts client operations (read, write, compare-and-swap) into the replicated log, applies
  decided entries to its store and answers the operations it coordinates.
  \<open>src/bin/jepsen_harness.rs\<close> starts a cluster of such nodes as child processes, routes their messages
  through a simulated network, injects partitions and crashes, records a history and checks it for
  linearizability. \<open>src/server\<close> and \<open>src/client\<close> are a key-value server over TCP and the client that
  measures it; \<open>src/common.rs\<close> holds the data they share.

  \<^bold>\<open>Conventions\<close> (theory \<open>Prelude\<close>). A struct is a record, an enum a datatype, \<open>u64\<close> is
  \<open>64 word\<close>, \<open>u16\<close> is \<open>16 word\<close>, \<open>i64\<close> time stamps are \<open>64 word\<close> read with \<open>sint\<close>; arithmetic is that of
  a release build, so it wraps. \<open>usize\<close> counters and \<open>u128\<close> nanoseconds are \<open>nat\<close>, with the bound of
  \<open>u128\<close> where the code compares with it. A panic is \<open>Inl (Panic msg)\<close> and skips the rest
  (\<open>bind_res\<close>, \<open>fold_res\<close>, \<open>map_res\<close>). A hash map whose iteration order matters is an association list,
  and an iteration order the code leaves open is a parameter \<open>iter\<close> that permutes. Logging and
  console output are left out. A node's standard output is taken to accept every line it writes: the
  \<open>unwrap\<close>s of \<open>send_msg\<close>, on serialising, writing and flushing, are not a branch of the model, and
  what is said of panics of a node is said under this assumption.

  \<^bold>\<open>Parameters.\<close> Code that is not in the repository is a parameter with its documented behaviour
  as a locale: \<open>json_lib\<close> and \<open>codec_lib\<close> for \<open>serde_json\<close> and derived codecs (theory
  \<open>Json_Interface\<close>), \<open>omnipaxos_lib\<close> for one instance of the consensus library (theory
  \<open>Omnipaxos_Interface\<close>), \<open>harness_os\<close> for processes and clock of the harness (theory
  \<open>Harness_Safety\<close>). Channels, sockets, address resolution, the \<open>config\<close> crate and the file system are
  arguments of the definitions that use them. What consensus promises of a whole cluster (one log that
  all decided logs are prefixes of; only proposed entries are decided) is assumed of runs in
  \<open>consensus_run\<close> and \<open>server_consensus_run\<close>; that clients number their requests and that none is decided
  twice (neither program removes duplicates) is assumed in \<open>exactly_once_run\<close> and
  \<open>exactly_once_servers\<close>, where linearizability needs it. Every locale is interpreted: a replicated log with a fixed
  leader satisfies the consensus interface and carries the concrete runs of \<open>Cluster_Scenario\<close> and
  \<open>Server_Scenario\<close>.

  \<^bold>\<open>Generic theories.\<close> \<open>Replica\<close>: running a log, and the interface of a replica, interpreted on the
  node and on the server. \<open>Linearizability\<close>: the specification and its locality (per-key
  linearizations merge). \<open>Interleaved_Runs\<close>: processes side by side, invariants of their runs, and that
  what is held was asked for. \<open>Run_History\<close>: the history clients observe of a run, from the requests its
  events bring and the answers its processes write, and the laws (\<open>log_run\<close>) that make it linearizable;
  a request that has not returned may have taken effect or not. \<open>Connections\<close>: channels, writer loops and the interface of connection
  tables, interpreted on both networks. \<open>Files\<close>: writing files.

  \<^bold>\<open>Maelstrom node.\<close> \<open>Maelstrom_Types\<close>: \<open>MaelstromCommand\<close>, \<open>KVOp\<close>, the snapshot type, node ids and
  every \<open>json!\<close> message. \<open>Maelstrom_Node\<close>: every method of \<open>MaelstromNode\<close>, the standard input thread,
  start-up and the event loop, with the invariant that the store is the replay of what was applied
  and the replies are those of the sequential store. \<open>Cluster\<close>: nodes side by side, and what clients
  find on their outputs.

  \<^bold>\<open>Harness.\<close> \<open>Checker\<close>: \<open>KVModel\<close>, pairing and grouping of the history, the search; it decides
  linearizability up to 101 operations per key (the depth limit of the code) and never rejects a
  linearizable history. \<open>Network_Simulator\<close>: partitions and killed nodes. \<open>Harness\<close>: processes, routing,
  operations, recording. \<open>Nemesis\<close>: the fault injector, the command line, saving the
  history and \<open>main\<close>.
  \<open>Harness_Safety\<close>: the invariant of a test run; it never writes to a dead process, numbers its
  operations, and its clock never goes back. \<open>Recording\<close>: delivery, and that the checker judges a
  recorded reply as the sequential store does.

  \<^bold>\<open>Server and client.\<close> \<open>KV_Store\<close>: commands, messages, \<open>KVSnapshot\<close>, \<open>Database\<close>. \<open>Server_Config\<close>,
  \<open>Server_Network\<close> (tables, listener, connectors, handshake, reader and writer tasks), \<open>Server\<close> (every
  handler, leader establishment, main loop, \<open>main\<close>), \<open>Server_Cluster\<close> (servers side by side, the independent sequential
  database \<open>db_spec\<close>, and what clients find in their channels).
  \<open>Client_Network\<close> and \<open>Client\<close> (intervals, collected data, event loop, saving, \<open>main\<close>).

  \<^bold>\<open>This theory\<close> holds what spans components: both clusters are linearizable as their clients see them
  and answer what is due, the answers are the results of the sequential object on the log, replicas
  agree, nothing is made up, and a cluster passes the harness's own check.

  \<^bold>\<open>Loops.\<close> Loops over data are structural recursion or have a termination proof (the checker's
  search: a measure on what remains). Loops that wait for the outside world take the outside world as
  a list of inputs and return a flag that says whether they have ended: \<open>nemesis_loop\<close>,
  \<open>initialize_connections\<close>, \<open>establish_initial_leader\<close>, \<open>client_loop\<close>, \<open>get_server_connection\<close>. That
  enough inputs end them is proved: \<open>run_nemesis_completes\<close> (a clock that advances by at least some
  tick per reading, and rounds enough for the duration), \<open>startup_connects_all\<close> (every peer and enough clients),
  \<open>start_signal_broadcast\<close> (an established leader), \<open>client_run_completes\<close> (one tick per interval),
  \<open>client_connects\<close> (a server that is reached after finitely many attempts).

  \<^bold>\<open>Not modelled.\<close> The module \<open>utils\<close> of \<open>src/common.rs\<close> (compositions of third-party codecs and type
  aliases), socket options and the abort of tasks, the scheduling of tokio (its effect is the order of
  the events), randomness (an input), console output, and the scripts, benchmarks, build and
  configuration files around the program.
\<close>

section \<open>A cluster of nodes is linearizable\<close>

text \<open>
  C1. A cluster is linearizable as its clients see it. Take any run of nodes over a consensus library
  that keeps its promises, with messages lost, delayed or reordered in any way, nodes that crash, and
  requests that are numbered by their clients and decided at most once. A request is called by the
  event that first brings it to a node, and it returns with what its client reads off the first answer
  to it on the node's output. The requests, possibly without some that have not returned, have a
  linearization for the sequential key-value store, and every request that is decided at its
  coordinator when the coordinator has handled a tick or a message has returned.
\<close>

theorem cluster_linearizable:
  assumes "consensus_run E decided proposed c0 evs L" "distinct L"
    and "inj_on request_route (set (run_requests (client_requests E evs) (length evs)))"
  shows "linearizable_run kv_spec op Map.empty (client_requests E evs) (node_result E c0 evs) (length evs) \<and>
         (\<forall>c. due E decided c0 evs c \<longrightarrow> outcome (node_result E c0 evs) (length evs) c \<noteq> None)"
proof -
  have run: "exactly_once_run E decided proposed c0 evs L"
    using assms by (simp add: exactly_once_run_def exactly_once_run_axioms_def)
  show ?thesis
    using exactly_once_run.observed_linearizable [OF run] exactly_once_run.due_answered [OF run]
    by (metis option.distinct(1))
qed

theorem cluster_linearizable_witness:
  "linearizable_run kv_spec op Map.empty (client_requests sc_env sc_events)
     (node_result sc_env sc_start sc_events) 4 \<and>
   outcome (node_result sc_env sc_start sc_events) 4 sc_write \<noteq> None \<and>
   outcome (node_result sc_env sc_start sc_events) 4 sc_read \<noteq> None"
  using cluster_linearizable [OF sc.consensus_run_axioms sx.once sx.numbered] sc_due by simp

text \<open>
  C2. What clients are told are the results of the log: at every moment of a run the replies a
  node has written are, in log order, the sequential store's results for the entries it coordinates
  among those it has applied.
\<close>

theorem cluster_replies:
  assumes "consensus_run E decided proposed c0 evs L"
    and "t \<le> length evs" "cl_nodes (cluster_at (node_step E) c0 evs t) i = Some n"
  shows "filter is_reply (stdout n) =
           map (\<lambda>p. reply_msg i (L ! p) (log_result L p))
             (filter (\<lambda>p. coordinator (L ! p) = i) [0..<decided_idx n])"
  using consensus_run.replies_at [OF assms] .

theorem cluster_replies_witness:
  "filter is_reply (stdout sc_b2) = [reply_msg ''n1'' sc_write (log_result sc_log 0)]"
proof -
  have "cl_nodes (cluster_at (node_step sc_env) sc_start sc_events 4) ''n1'' = Some sc_b2"
    by (simp add: sc_eval)
  from cluster_replies [OF sc.consensus_run_axioms _ this]
  have "filter is_reply (stdout sc_b2) =
      map (\<lambda>p. reply_msg ''n1'' (sc_log ! p) (log_result sc_log p))
        (filter (\<lambda>p. coordinator (sc_log ! p) = ''n1'') [0..<decided_idx sc_b2])" by simp
  moreover have "decided_idx sc_b2 = 1" "sc_log ! 0 = sc_write" "coordinator sc_write = ''n1''"
    by (simp_all add: sc_b2_def sc_node_def sc_log_def sc_write_def)
  ultimately show ?thesis by simp
qed

text \<open>
  C15. Replicas agree: two nodes, at any two moments, that have applied equally many entries have
  the same store.
\<close>

theorem cluster_stores_agree:
  assumes "consensus_run E decided proposed c0 evs L"
    and "t \<le> length evs" "cl_nodes (cluster_at (node_step E) c0 evs t) i = Some n"
    and "u \<le> length evs" "cl_nodes (cluster_at (node_step E) c0 evs u) j = Some m"
    and "decided_idx n = decided_idx m"
  shows "kv_store n = kv_store m"
  using consensus_run.replies_sequential(2) [OF assms(1-3)]
    consensus_run.replies_sequential(2) [OF assms(1,4,5)] assms(6) by simp

theorem cluster_stores_agree_witness: "kv_store sc_a1 = kv_store sc_b2"
proof (rule cluster_stores_agree [OF sc.consensus_run_axioms, of 2 "''n0''" _ 4 "''n1''"])
  show "cl_nodes (cluster_at (node_step sc_env) sc_start sc_events 2) ''n0'' = Some sc_a1"
    "cl_nodes (cluster_at (node_step sc_env) sc_start sc_events 4) ''n1'' = Some sc_b2" by (simp_all add: sc_eval)
  show "decided_idx sc_a1 = decided_idx sc_b2" by (simp add: sc_a1_def sc_b2_def sc_node_def)
qed simp_all

text \<open>
  C14. Nothing is made up: every entry a node has decided was asked for by a client at an earlier
  event of the run.
\<close>

theorem cluster_no_invention:
  assumes "consensus_run E decided proposed c0 evs L"
    and "t \<le> length evs" "cl_nodes (cluster_at (node_step E) c0 evs t) i = Some n"
    and "c \<in> set (decided (omnipaxos n))"
  shows "\<exists>s<t. invoked_at E evs s c"
  using consensus_run.decided_invoked [OF assms] .

theorem cluster_no_invention_witness: "\<exists>s<4. invoked_at sc_env sc_events s sc_write"
proof (rule cluster_no_invention [OF sc.consensus_run_axioms, of _ "''n1''"])
  show "cl_nodes (cluster_at (node_step sc_env) sc_start sc_events 4) ''n1'' = Some sc_b2" by (simp add: sc_eval)
  show "sc_write \<in> set (ll_log (omnipaxos sc_b2))" by (simp add: sc_b2_def sc_node_def)
qed simp

section \<open>A cluster of servers is linearizable\<close>

text \<open>
  C3. A cluster of key-value servers is linearizable as its clients see it. Take any run of servers over
  a consensus library that keeps its promises, from creation through leader establishment and the main
  loops, with any interleaving of the servers and their crashes, requests that are numbered by their
  clients and decided at most once, and channels that keep what they take in order. A request is called
  by the batch that first brings it to a server, and it returns with what the client reads off the first
  answer to it in the client's channel at that server. The requests, possibly without some that have not
  returned, have a linearization for the sequential database, and every request that is decided at its
  coordinator when the coordinator has handled a consensus message with the client connected has
  returned.
\<close>

theorem server_cluster_linearizable:
  assumes "server_consensus_run E decided proposed c0 evs L" "distinct L"
    and "inj_on command_route (set (run_requests (server_requests evs) (length evs)))"
    and "records (client_chan (se_chan E)) sent" "unused_channels sent c0"
  shows "linearizable_run db_spec kv_cmd Map.empty (server_requests evs) (server_result E sent c0 evs)
           (length evs) \<and>
         (\<forall>c. server_due E decided c0 evs c \<longrightarrow> outcome (server_result E sent c0 evs) (length evs) c \<noteq> None)"
proof -
  have run: "exactly_once_servers E decided proposed c0 evs L sent"
    using assms by (simp add: exactly_once_servers_def exactly_once_servers_axioms_def)
  show ?thesis
    using exactly_once_servers.observed_linearizable [OF run] exactly_once_servers.due_answered [OF run] by blast
qed

theorem server_cluster_linearizable_witness:
  "linearizable_run db_spec kv_cmd Map.empty (server_requests duo_events)
     (server_result lone_server_env qc_sent (duo_cluster 0 0) duo_events) 5 \<and>
   outcome (server_result lone_server_env qc_sent (duo_cluster 0 0) duo_events) 5 lone_put \<noteq> None"
  using server_cluster_linearizable [OF duo.server_consensus_run_axioms dx.once dx.numbered dx.recorded]
    duo_due by simp

text \<open>
  C4. What clients of a server are told are the results of the log: at every moment of a run the
  channel of a client has been fed, between start signals, exactly the answers to the entries of that
  client which the server coordinates and has applied, each once, in log order, with the results of
  the sequential database.
\<close>

theorem server_cluster_answers:
  assumes "server_consensus_run E decided proposed c0 evs L"
    and "t \<le> length evs" "cl_nodes (cluster_at (server_turn E) c0 evs t) i = Some n"
    and "cl_nodes c0 i = Some n0"
  shows "\<exists>ms. client_channel (sv_network (snd n)) k =
             feed (client_chan (se_chan E)) (client_channel (sv_network (snd n0)) k) ms \<and>
           filter is_response ms = map (\<lambda>p. response (L ! p) (entry_result L p))
             (filter (\<lambda>p. cmd_coordinator_id (L ! p) = i \<and> cmd_client_id (L ! p) = k)
               [0..<current_decided_idx (snd n)])"
  using server_consensus_run.told_at [OF assms] .

theorem server_cluster_answers_witness:
  "\<exists>ms. client_channel (sv_network (snd (duo_a 3))) 1 =
      feed queue_send (client_channel (sv_network (snd (duo_a 0))) 1) ms \<and>
    filter is_response ms = [WriteResp 0]"
proof -
  have at: "cl_nodes (cluster_at (server_turn lone_server_env) (duo_cluster 0 0) duo_events 5) 1 = Some (duo_a 3)"
    "cl_nodes (duo_cluster 0 0) 1 = Some (duo_a 0)" by (simp_all add: duo_states duo_nodes)
  have "current_decided_idx (snd (duo_a 3)) = 1" by (simp add: duo_a_def duo_server_def)
  moreover have "response lone_put (entry_result [lone_put] 0) = WriteResp 0"
    by (simp add: response_def result_at_def log_state_def lone_put_def)
  moreover have "client_chan (se_chan lone_server_env) = queue_send"
    by (simp add: lone_server_env_def queue_channels_def)
  ultimately show ?thesis
    using server_cluster_answers [OF duo.server_consensus_run_axioms _ at, of 1]
    by (simp add: lone_put_def)
qed

text \<open>
  C16. Databases agree: two servers, at any two moments, that have applied equally many entries have the
  same database, and what a server has applied was asked for by a client before.
\<close>

theorem server_databases_agree:
  assumes "server_consensus_run E decided proposed c0 evs L"
    and "t \<le> length evs" "cl_nodes (cluster_at (server_turn E) c0 evs t) i = Some n"
    and "u \<le> length evs" "cl_nodes (cluster_at (server_turn E) c0 evs u) j = Some m"
    and "current_decided_idx (snd n) = current_decided_idx (snd m)"
  shows "sv_database (snd n) = sv_database (snd m) \<and>
         (\<forall>c\<in>set (take (current_decided_idx (snd n)) L). \<exists>s<t. asked_at evs s c)"
proof -
  note n = server_consensus_run.server_inv_at [OF assms(1-3)] server_consensus_run.applied_log [OF assms(1-3)]
  note m = server_consensus_run.server_inv_at [OF assms(1,4,5)]
    server_consensus_run.applied_log [OF assms(1,4,5)]
  have "\<exists>s<t. asked_at evs s c" if "c \<in> set (take (current_decided_idx (snd n)) L)" for c
    using that n(3) server_consensus_run.decided_asked [OF assms(1-3)] by (metis in_set_takeD)
  with n m assms(6) show ?thesis by (simp add: server_inv_def)
qed

theorem server_databases_agree_witness: "sv_database (snd (duo_a 3)) = sv_database (snd (duo_b 2))"
proof -
  have "cl_nodes (cluster_at (server_turn lone_server_env) (duo_cluster 0 0) duo_events 5) 1 = Some (duo_a 3)"
    "cl_nodes (cluster_at (server_turn lone_server_env) (duo_cluster 0 0) duo_events 4) 2 = Some (duo_b 2)"
    by (simp_all add: duo_states duo_nodes)
  moreover have "current_decided_idx (snd (duo_a 3)) = current_decided_idx (snd (duo_b 2))"
    by (simp add: duo_a_def duo_b_def duo_server_def)
  ultimately show ?thesis
    using server_databases_agree [OF duo.server_consensus_run_axioms, of 5 1 "duo_a 3" 4 2 "duo_b 2"] by simp
qed

section \<open>A cluster passes its own test\<close>

text \<open>The history of the two operations of the scenario, as the harness records it.\<close>

abbreviation "sc_write_ok \<equiv> Write_Ok ''n1'' ''c1'' 1"
abbreviation "sc_read_ok \<equiv> Read_Ok ''n0'' ''c2'' 2 (JNum 7)"

definition sc_history :: "json_value history_entry list" where
  "sc_history =
     [invocation_of sc_write 0, completion_of value_json sc_write_ok 3,
      invocation_of sc_read 3, completion_of value_json sc_read_ok 4]"

lemma sc_history_paired:
  "paired_ops sc_history = [recorded_op value_json sc_write sc_write_ok 0 3,
                            recorded_op value_json sc_read sc_read_ok 3 4]"
proof -
  have inv: "pair_entry (ops, invs) (invocation_of c t) = (ops, invs(msg_id c \<mapsto> invocation_of c t))"
    for ops :: "json_value linear_op list" and invs c t
    by (cases "op c") (simp_all add: pair_entry_def invoke_entry_def)
  have msgs: "sc_write_ok = reply_msg ''n1'' sc_write Written"
    "sc_read_ok = reply_msg ''n0'' sc_read (Value (JNum 7))"
    by (simp_all add: sc_write_def sc_read_def)
  show ?thesis
    unfolding msgs paired_ops_def sc_history_def
    by (simp add: inv vj.pair_recorded del: invocation_of.simps reply_msg.simps)
qed

text \<open>
  C5. A cluster passes its own test: take any run of the nodes over a consensus library that keeps
  its promises, in which requests are numbered and decided at most once, and every decided request is
  decided at its coordinator when the coordinator has handled a tick or a message. Take any history
  whose operations are those requests, each with the answer its coordinator had written to its output,
  invoked no later than the request arrived and completed no earlier than that answer was written.
  Then the harness's check accepts the history.
\<close>

theorem cluster_passes_check:
  assumes "consensus_run E decided proposed c0 evs L" "distinct L"
    and "inj_on request_route (set (run_requests (client_requests E evs) (length evs)))"
    and "\<forall>c\<in>set L. due E decided c0 evs c"
    and "json_lib J" "mono clock"
    and "\<forall>c\<in>set L. invoked c \<le> clock (call_time (client_requests E evs) (length evs) c)"
    and "\<forall>c\<in>set L. clock (return_time (node_result E c0 evs) (length evs) c) \<le> completed c"
    and "mset (paired_ops hist) =
           mset (map (\<lambda>c. recorded_op J c
               (the (node_answer E c0 evs (return_time (node_result E c0 evs) (length evs) c) c))
               (invoked c) (completed c)) L)"
    and "\<And>gs. mset (iter gs) = mset gs"
  shows "check_linearizability iter hist = Inr (Inr ())"
proof (rule check_complete)
  let ?rec = "\<lambda>p. recorded_op J (L ! p) (reply_msg (coordinator (L ! p)) (L ! p) (log_result L p))
      (invoked (L ! p)) (completed (L ! p))"
  let ?ops = "map ?rec [0..<length L]"
  have run: "exactly_once_run E decided proposed c0 evs L"
    using assms(1-3) by (simp add: exactly_once_run_def exactly_once_run_axioms_def)
  note fields = json_lib.recorded_op_fields [OF assms(5)]
  have "the (node_answer E c0 evs (return_time (node_result E c0 evs) (length evs) (L ! p)) (L ! p)) =
      reply_msg (coordinator (L ! p)) (L ! p) (log_result L p)" if "p < length L" for p
    using exactly_once_run.due_answer [OF run that] assms(4) that by simp
  then have "map (\<lambda>c. recorded_op J c
      (the (node_answer E c0 evs (return_time (node_result E c0 evs) (length evs) c) c))
      (invoked c) (completed c)) L = ?ops"
    by (intro nth_equalityI) simp_all
  with assms(9) have ops: "mset (paired_ops hist) = mset ?ops" by simp
  from mset_eq_setD [OF this] show "\<forall>x\<in>set (paired_ops hist). wf_op x" by (auto simp: fields)
  have "rt_ordered invoke_time complete_time ?ops"
  proof (rule rt_orderedI)
    fix p q
    assume pq: "p \<le> q" "q < length ?ops"
    with assms(4) have "call_time (client_requests E evs) (length evs) (L ! p) \<le>
        return_time (node_result E c0 evs) (length evs) (L ! q)"
      by (intro exactly_once_run.called_before_due [OF run]) simp_all
    from monoD [OF assms(6) this] have "clock (call_time (client_requests E evs) (length evs) (L ! p)) \<le>
        clock (return_time (node_result E c0 evs) (length evs) (L ! q))" .
    moreover have "L ! p \<in> set L" "L ! q \<in> set L" using pq by simp_all
    ultimately have "invoked (L ! p) \<le> completed (L ! q)" using assms(7,8) by (meson order_trans)
    with pq show "invoke_time (?ops ! p) \<le> complete_time (?ops ! q)" by (simp add: fields)
  qed
  moreover have "legal model_obj kv_model_new ?ops" by (rule json_lib.legal_recorded [OF assms(5)])
  ultimately show "linearizable model_obj invoke_time complete_time kv_model_new (paired_ops hist)"
    unfolding linearizable_def using ops [symmetric] by (intro exI [of _ ?ops] conjI)
qed (rule assms(10))

theorem cluster_passes_check_witness: "check_linearizability rev sc_history = Inr (Inr ())"
proof (rule cluster_passes_check [OF sc.consensus_run_axioms sx.once sx.numbered _ vj.json_lib_axioms, of id])
  let ?inv = "\<lambda>c. if c = sc_write then 0 else 3 :: nat" and ?cmp = "\<lambda>c. if c = sc_write then 3 else 4 :: nat"
  have set: "set sc_log = {sc_write, sc_read}" and ne: "sc_read \<noteq> sc_write"
    by (simp_all add: sc_log_def) (simp add: sc_write_def sc_read_def)
  show "\<forall>c\<in>set sc_log. due sc_env ll_log sc_start sc_events c" using sc_due by (simp add: set)
  show "\<forall>c\<in>set sc_log. ?inv c \<le> id (call_time (client_requests sc_env sc_events) (length sc_events) c)"
    using ne by (simp add: set sc_call_times)
  show "\<forall>c\<in>set sc_log. id (return_time (node_result sc_env sc_start sc_events) (length sc_events) c) \<le> ?cmp c"
    using ne by (simp add: set sc_return_times)
  show "mset (paired_ops sc_history) =
      mset (map (\<lambda>c. recorded_op value_json c
        (the (node_answer sc_env sc_start sc_events
          (return_time (node_result sc_env sc_start sc_events) (length sc_events) c) c)) (?inv c) (?cmp c)) sc_log)"
    using ne by (simp add: sc_log_def sc_history_paired sc_return_times sc_answers)
qed (simp_all add: mono_def)


end
